theory Spec2Isabelle
  imports Main "HOL-Library.Sublist" "HOL-Library.AList"
begin

section \<open>Python values, dictionaries and exceptions\<close>

text \<open>
  The script \<^verbatim>\<open>localstack-backup.py\<close> is Python 3 (f-strings, \<^verbatim>\<open>input\<close>,
  \<^verbatim>\<open>print\<close> as a function). Every exception it can raise is a value of
  \<open>error\<close>; a computation returns \<open>Inl e\<close> when the exception \<open>e\<close> leaves it
  uncaught.
\<close>

datatype error =
    KeyError string
  | IndexError
  | TypeError
  | AttributeError string
  | FileNotFoundError string
  | ParamValidationError
  | ClientError string

text \<open>
  The values that travel through the dictionaries of the script: \<^verbatim>\<open>str\<close>,
  \<^verbatim>\<open>bytes\<close> and nested \<^verbatim>\<open>dict\<close>. A \<open>string\<close> is a list of bytes, so a
  \<^verbatim>\<open>str\<close> is represented by its UTF-8 encoding. A dictionary is an association list in
  insertion order whose first entry for a key is the one that counts.
\<close>

datatype pyval = PStr string | PBytes string | PDict "(string \<times> pyval) list"

type_synonym pydict = "(string \<times> pyval) list"

definition dict_get :: "pydict \<Rightarrow> string \<Rightarrow> error + pyval" where
  "dict_get d k = (case map_of d k of None \<Rightarrow> Inl (KeyError k) | Some v \<Rightarrow> Inr v)"

definition dict_has :: "pydict \<Rightarrow> string \<Rightarrow> bool" where
  "dict_has d k = (case map_of d k of None \<Rightarrow> False | Some v \<Rightarrow> True)"

definition dict_set :: "pydict \<Rightarrow> string \<Rightarrow> pyval \<Rightarrow> pydict" where
  "dict_set d k v = AList.update k v d"

text \<open>\<^verbatim>\<open>v[k]\<close> with a \<^verbatim>\<open>str\<close> subscript: only a dictionary accepts it.\<close>

fun py_getitem :: "pyval \<Rightarrow> string \<Rightarrow> error + pyval" where
  "py_getitem (PDict d) k = dict_get d k"
| "py_getitem (PStr s) k = Inl TypeError"
| "py_getitem (PBytes b) k = Inl TypeError"

text \<open>
  \<^verbatim>\<open>k in v\<close> with a \<^verbatim>\<open>str\<close> on the left: key membership in a dictionary, the
  substring test in a \<^verbatim>\<open>str\<close>, a \<^verbatim>\<open>TypeError\<close> in \<^verbatim>\<open>bytes\<close>.
\<close>

fun py_contains :: "string \<Rightarrow> pyval \<Rightarrow> error + bool" where
  "py_contains k (PDict d) = Inr (dict_has d k)"
| "py_contains k (PStr s) = Inr (sublist k s)"
| "py_contains k (PBytes b) = Inl TypeError"

text \<open>\<^verbatim>\<open>a + v + b\<close> where \<^verbatim>\<open>a\<close> and \<^verbatim>\<open>b\<close> are \<^verbatim>\<open>str\<close> literals.\<close>

fun py_concat3 :: "string \<Rightarrow> pyval \<Rightarrow> string \<Rightarrow> error + string" where
  "py_concat3 a (PStr s) b = Inr (a @ s @ b)"
| "py_concat3 a (PBytes s) b = Inl TypeError"
| "py_concat3 a (PDict d) b = Inl TypeError"

text \<open>\<^verbatim>\<open>str.split(sep)\<close> for a one-character separator; the result is never empty.\<close>

fun split_chr :: "char \<Rightarrow> string \<Rightarrow> string list" where
  "split_chr c [] = [[]]"
| "split_chr c (x # xs) =
     (if x = c then [] # split_chr c xs
      else (case split_chr c xs of [] \<Rightarrow> [[x]] | p # ps \<Rightarrow> (x # p) # ps))"

text \<open>\<^verbatim>\<open>s.split(sep)[-1]\<close>.\<close>

definition last_segment :: "char \<Rightarrow> string \<Rightarrow> string" where
  "last_segment c s = last (split_chr c s)"

text \<open>\<^verbatim>\<open>s.endswith(t)\<close>.\<close>

definition endswith :: "string \<Rightarrow> string \<Rightarrow> bool" where
  "endswith s t = suffix t s"

text \<open>\<^verbatim>\<open>str(n)\<close> for a natural number, as the f-strings render counts.\<close>

fun show_nat :: "nat \<Rightarrow> string" where
  "show_nat n =
     (if n < 10 then [char_of (48 + n)]
      else show_nat (n div 10) @ [char_of (48 + n mod 10)])"

declare show_nat.simps [simp del]

text \<open>\<^verbatim>\<open>str.lower()\<close> on the ASCII letters; every other byte is kept.\<close>

definition lower_chr :: "char \<Rightarrow> char" where
  "lower_chr c =
     (if 65 \<le> (of_char c :: nat) \<and> (of_char c :: nat) \<le> 90
      then char_of ((of_char c :: nat) + 32) else c)"

definition lower :: "string \<Rightarrow> string" where
  "lower s = map lower_chr s"

section \<open>The emulated services and the working directory\<close>

text \<open>
  The script talks to three services through \<^verbatim>\<open>boto3\<close> clients and to six pickle
  files in the working directory. Their state is explicit.

  Object storage: the buckets in listing order, each with its objects (key and body) in
  listing order.
\<close>

type_synonym s3_state = "(string \<times> (string \<times> string) list) list"

text \<open>
  A queue: the bodies of the messages that can be received, the messages that were
  received and not yet deleted (with their receipt handles), and the next receipt handle.
\<close>

record sqs_queue =
  visible :: "string list"
  inflight :: "(nat \<times> string) list"
  next_handle :: nat

type_synonym sqs_state = "(string \<times> sqs_queue) list"

text \<open>Topics by ARN, each with the subscription entries its listing returns.\<close>

type_synonym sns_state = "(string \<times> pydict list) list"

text \<open>The six snapshot files; \<open>None\<close> is a file that does not exist.\<close>

record snapshot_files =
  s3_buckets_pickle :: "string list option"
  s3_objects_pickle :: "pydict list option"
  sqs_queues_pickle :: "string list option"
  sqs_messages_pickle :: "pydict list option"
  sns_topics_pickle :: "string list option"
  sns_subs_pickle :: "pydict list option"

datatype file_op = ReadFile string | WriteFile string

datatype api_call =
    S3ListBuckets
  | S3ListObjects string
  | S3GetObject string string
  | S3CreateBucket string
  | S3PutObject string string string
  | SqsListQueues
  | SqsGetQueueAttributes string
  | SqsReceiveMessage string
  | SqsDeleteMessage string nat
  | SqsCreateQueue string "(string \<times> string) list option"
  | SqsSendMessage string string "(string \<times> string) option"
  | SnsListTopics
  | SnsListSubscriptionsByTopic string
  | SnsCreateTopic string
  | SnsSubscribe string string string "(string \<times> string) list option"

datatype service = S3 | SQS | SNS

text \<open>
  The world the script runs in: whether \<^verbatim>\<open>boto3.client\<close> succeeds for each service,
  the state of the services, the snapshot files, the source of \<^verbatim>\<open>random.choice\<close>, and
  three logs (lines printed, requests sent to the services, files opened).
\<close>

record world =
  s3_client_ok :: bool
  sqs_client_ok :: bool
  sns_client_ok :: bool
  s3 :: s3_state
  sqs :: sqs_state
  sns :: sns_state
  files :: snapshot_files
  rng :: "nat \<Rightarrow> nat"
  rng_pos :: nat
  stdout :: "string list"
  calls :: "api_call list"
  file_ops :: "file_op list"

type_synonym 'a io = "world \<Rightarrow> (error + 'a) \<times> world"

definition io_ret :: "'a \<Rightarrow> 'a io" where
  "io_ret x = (\<lambda>w. (Inr x, w))"

definition raise :: "error \<Rightarrow> 'a io" where
  "raise e = (\<lambda>w. (Inl e, w))"

definition lift :: "error + 'a \<Rightarrow> 'a io" where
  "lift r = (\<lambda>w. (r, w))"

definition io_bind :: "'a io \<Rightarrow> ('a \<Rightarrow> 'b io) \<Rightarrow> 'b io" where
  "io_bind m f = (\<lambda>w. case m w of (Inl e, w') \<Rightarrow> (Inl e, w') | (Inr x, w') \<Rightarrow> f x w')"

text \<open>A \<^verbatim>\<open>for\<close> loop that appends to a local list: the list is the accumulator.\<close>

fun for_acc :: "('b \<Rightarrow> 'a \<Rightarrow> 'b io) \<Rightarrow> 'a list \<Rightarrow> 'b \<Rightarrow> 'b io" where
  "for_acc f [] acc = io_ret acc"
| "for_acc f (x # xs) acc = io_bind (f acc x) (for_acc f xs)"

text \<open>A \<^verbatim>\<open>for\<close> loop run for its effects.\<close>

fun for_each :: "('a \<Rightarrow> unit io) \<Rightarrow> 'a list \<Rightarrow> unit io" where
  "for_each f [] = io_ret ()"
| "for_each f (x # xs) = io_bind (f x) (\<lambda>_. for_each f xs)"

text \<open>\<^verbatim>\<open>for i in range(n)\<close> around a body that appends to a local list.\<close>

fun for_range :: "nat \<Rightarrow> ('b \<Rightarrow> 'b io) \<Rightarrow> 'b \<Rightarrow> 'b io" where
  "for_range 0 f acc = io_ret acc"
| "for_range (Suc n) f acc = io_bind (f acc) (for_range n f)"

definition print :: "string \<Rightarrow> unit io" where
  "print s = (\<lambda>w. (Inr (), w\<lparr>stdout := stdout w @ [s]\<rparr>))"

definition request :: "api_call \<Rightarrow> unit io" where
  "request c = (\<lambda>w. (Inr (), w\<lparr>calls := calls w @ [c]\<rparr>))"

text \<open>
  \<^verbatim>\<open>boto3.client(...)\<close> inside \<^verbatim>\<open>try\<close>: the result says whether a client was
  obtained.
\<close>

definition connect :: "service \<Rightarrow> bool io" where
  "connect svc = (\<lambda>w. (Inr (case svc of S3 \<Rightarrow> s3_client_ok w | SQS \<Rightarrow> sqs_client_ok w
                                 | SNS \<Rightarrow> sns_client_ok w), w))"

text \<open>A parameter that the client validates as a \<^verbatim>\<open>str\<close> before sending a request.\<close>

fun param_str :: "pyval \<Rightarrow> error + string" where
  "param_str (PStr s) = Inr s"
| "param_str (PBytes b) = Inl ParamValidationError"
| "param_str (PDict d) = Inl ParamValidationError"

text \<open>A request body: \<^verbatim>\<open>bytes\<close>, or a \<^verbatim>\<open>str\<close> that is sent as its encoding.\<close>

fun param_body :: "pyval \<Rightarrow> error + string" where
  "param_body (PStr s) = Inr s"
| "param_body (PBytes b) = Inr b"
| "param_body (PDict d) = Inl ParamValidationError"

subsection \<open>Object storage requests\<close>

text \<open>
  The responses have the shape the client library gives them. \<^verbatim>\<open>list_buckets\<close> always
  has \<^verbatim>\<open>'Buckets'\<close>. \<^verbatim>\<open>list_objects\<close> has \<^verbatim>\<open>'Contents'\<close> only when the bucket
  holds an object: the result is \<open>None\<close> when the key is absent from the response.
  Listings are complete (the environments considered fit in one response page).
\<close>

definition s3_list_buckets :: "string list io" where
  "s3_list_buckets = io_bind (request S3ListBuckets) (\<lambda>_ w. (Inr (map fst (s3 w)), w))"

definition s3_list_objects :: "string \<Rightarrow> string list option io" where
  "s3_list_objects b = io_bind (request (S3ListObjects b)) (\<lambda>_ w.
     (case map_of (s3 w) b of
        None \<Rightarrow> Inl (ClientError ''NoSuchBucket'')
      | Some objs \<Rightarrow> Inr (if objs = [] then None else Some (map fst objs)), w))"

definition s3_get_object :: "string \<Rightarrow> string \<Rightarrow> string io" where
  "s3_get_object b k = io_bind (request (S3GetObject b k)) (\<lambda>_ w.
     (case map_of (s3 w) b of
        None \<Rightarrow> Inl (ClientError ''NoSuchBucket'')
      | Some objs \<Rightarrow> (case map_of objs k of
                       None \<Rightarrow> Inl (ClientError ''NoSuchKey'')
                     | Some body \<Rightarrow> Inr body), w))"

text \<open>In \<^verbatim>\<open>us-east-1\<close>, creating a bucket that the caller already owns succeeds.\<close>

definition s3_create_bucket :: "string \<Rightarrow> unit io" where
  "s3_create_bucket b = io_bind (request (S3CreateBucket b)) (\<lambda>_ w.
     (Inr (), if b \<in> fst ` set (s3 w) then w else w\<lparr>s3 := s3 w @ [(b, [])]\<rparr>))"

definition s3_put_object :: "pyval \<Rightarrow> pyval \<Rightarrow> pyval \<Rightarrow> unit io" where
  "s3_put_object bucket key body =
     io_bind (lift (param_str bucket)) (\<lambda>b.
     io_bind (lift (param_str key)) (\<lambda>k.
     io_bind (lift (param_body body)) (\<lambda>v.
     io_bind (request (S3PutObject b k v)) (\<lambda>_ w.
       (case map_of (s3 w) b of
          None \<Rightarrow> (Inl (ClientError ''NoSuchBucket''), w)
        | Some objs \<Rightarrow>
            (Inr (), w\<lparr>s3 := AList.update b (AList.update k v objs) (s3 w)\<rparr>))))))"

subsection \<open>Snapshot files\<close>

text \<open>
  \<^verbatim>\<open>pickle.dump(x, open(name, 'wb'))\<close> replaces the file; \<^verbatim>\<open>pickle.load(open(name,
  'rb'))\<close> raises \<^verbatim>\<open>FileNotFoundError\<close> when there is none.
\<close>

definition dump_s3_buckets :: "string list \<Rightarrow> unit io" where
  "dump_s3_buckets x = (\<lambda>w. (Inr (),
     w\<lparr>files := (files w)\<lparr>s3_buckets_pickle := Some x\<rparr>,
       file_ops := file_ops w @ [WriteFile ''s3_buckets.pickle'']\<rparr>))"

definition dump_s3_objects :: "pydict list \<Rightarrow> unit io" where
  "dump_s3_objects x = (\<lambda>w. (Inr (),
     w\<lparr>files := (files w)\<lparr>s3_objects_pickle := Some x\<rparr>,
       file_ops := file_ops w @ [WriteFile ''s3_objects.pickle'']\<rparr>))"

definition load_file :: "string \<Rightarrow> (snapshot_files \<Rightarrow> 'a option) \<Rightarrow> 'a io" where
  "load_file name sel = (\<lambda>w.
     (case sel (files w) of
        None \<Rightarrow> (Inl (FileNotFoundError name), w)
      | Some x \<Rightarrow> (Inr x, w\<lparr>file_ops := file_ops w @ [ReadFile name]\<rparr>)))"

section \<open>Object storage backup and restore\<close>

text \<open>Lines 77 to 85 of the script: the body of the loop over the objects of a bucket.\<close>

definition backup_s3_object :: "string \<Rightarrow> pydict list \<Rightarrow> string \<Rightarrow> pydict list io" where
  "backup_s3_object bucket objects key =
     io_bind (print (''    Working on object '' @ key)) (\<lambda>_.
     io_bind (s3_get_object bucket key) (\<lambda>body.
     io_ret (objects @ [[(''bucket_name'', PStr bucket), (''object_key'', PStr key),
                         (''object_body'', PBytes body)]])))"

text \<open>
  Lines 72 to 85: the body of the loop over the buckets. \<^verbatim>\<open>contents['Contents']\<close> is
  indexed without a test.
\<close>

definition backup_s3_bucket :: "pydict list \<Rightarrow> string \<Rightarrow> pydict list io" where
  "backup_s3_bucket objects bucket =
     io_bind (print (''Working on bucket '' @ bucket)) (\<lambda>_.
     io_bind (s3_list_objects bucket) (\<lambda>contents.
     (case contents of
        None \<Rightarrow> raise (KeyError ''Contents'')
      | Some keys \<Rightarrow> for_acc (backup_s3_object bucket) keys objects)))"

definition s3_unreachable :: string where
  "s3_unreachable = CHR 0x0A # ''***Unable to connect to LocalStack S3 service - make sure everything is running***'' @ [CHR 0x0A]"

definition backup_s3 :: "bool io" where
  "backup_s3 =
     io_bind (connect S3) (\<lambda>s3_conn.
     if s3_conn then
       io_bind s3_list_buckets (\<lambda>buckets.
       io_bind (dump_s3_buckets buckets) (\<lambda>_.
       io_bind (for_acc backup_s3_bucket buckets []) (\<lambda>objects.
       io_bind (dump_s3_objects objects) (\<lambda>_.
       io_ret False))))
     else
       io_bind (print s3_unreachable) (\<lambda>_. io_ret False))"

text \<open>Line 235: the body of the loop over the persisted object records.\<close>

definition restore_s3_object :: "pydict \<Rightarrow> unit io" where
  "restore_s3_object object =
     io_bind (lift (dict_get object ''bucket_name'')) (\<lambda>bucket.
     io_bind (lift (dict_get object ''object_key'')) (\<lambda>key.
     io_bind (lift (dict_get object ''object_body'')) (\<lambda>body.
     s3_put_object bucket key body)))"

text \<open>Lines 227 and 228.\<close>

definition restore_s3_bucket :: "string \<Rightarrow> unit io" where
  "restore_s3_bucket bucket =
     io_bind (print (''Restoring bucket '' @ bucket)) (\<lambda>_. s3_create_bucket bucket)"

text \<open>
  Lines 205 to 237. The object file is opened inside the branch taken when the bucket
  list is not empty.
\<close>

definition restore_s3 :: "bool io" where
  "restore_s3 =
     io_bind (connect S3) (\<lambda>s3_conn.
     if s3_conn then
       io_bind (load_file ''s3_buckets.pickle'' s3_buckets_pickle) (\<lambda>bucket_list.
       if length bucket_list > 0 then
         io_bind (for_each restore_s3_bucket bucket_list) (\<lambda>_.
         io_bind (load_file ''s3_objects.pickle'' s3_objects_pickle) (\<lambda>object_list.
         if length object_list > 0 then
           io_bind (print (''Restoring '' @ show_nat (length object_list) @ '' objects'')) (\<lambda>_.
           io_bind (for_each restore_s3_object object_list) (\<lambda>_.
           io_ret False))
         else io_ret False))
       else io_ret False)
     else
       io_bind (print s3_unreachable) (\<lambda>_. io_ret False))"

section \<open>Queue backup and restore\<close>

subsection \<open>Queue requests\<close>

text \<open>
  \<^verbatim>\<open>list_queues\<close> has \<^verbatim>\<open>'QueueUrls'\<close> only when there is a queue, and
  \<^verbatim>\<open>receive_message\<close> has \<^verbatim>\<open>'Messages'\<close> only when a message was received:
  \<open>None\<close> is a response without the key. The number of messages that a queue reports is
  the number it can deliver (no other producer or consumer is running); the model returns
  it as a number, where the script applies \<^verbatim>\<open>int\<close> to its decimal rendering.
\<close>

definition sqs_list_queues :: "string list option io" where
  "sqs_list_queues = io_bind (request SqsListQueues) (\<lambda>_ w.
     (Inr (if sqs w = [] then None else Some (map fst (sqs w))), w))"

definition sqs_get_queue_attributes :: "string \<Rightarrow> nat io" where
  "sqs_get_queue_attributes url = io_bind (request (SqsGetQueueAttributes url)) (\<lambda>_ w.
     (case map_of (sqs w) url of
        None \<Rightarrow> Inl (ClientError ''NonExistentQueue'')
      | Some q \<Rightarrow> Inr (length (visible q)), w))"

text \<open>
  Receiving takes the first deliverable message, gives it a fresh receipt handle and
  keeps it in flight. The result is the body and the receipt handle.
\<close>

definition sqs_receive_message :: "string \<Rightarrow> (string \<times> nat) option io" where
  "sqs_receive_message url = io_bind (request (SqsReceiveMessage url)) (\<lambda>_ w.
     (case map_of (sqs w) url of
        None \<Rightarrow> (Inl (ClientError ''NonExistentQueue''), w)
      | Some q \<Rightarrow>
          (case visible q of
             [] \<Rightarrow> (Inr None, w)
           | body # rest \<Rightarrow>
               (Inr (Some (body, next_handle q)),
                w\<lparr>sqs := AList.update url
                     (q\<lparr>visible := rest,
                        inflight := inflight q @ [(next_handle q, body)],
                        next_handle := Suc (next_handle q)\<rparr>) (sqs w)\<rparr>))))"

definition sqs_delete_message :: "string \<Rightarrow> nat \<Rightarrow> unit io" where
  "sqs_delete_message url handle = io_bind (request (SqsDeleteMessage url handle)) (\<lambda>_ w.
     (case map_of (sqs w) url of
        None \<Rightarrow> (Inl (ClientError ''NonExistentQueue''), w)
      | Some q \<Rightarrow>
          (Inr (), w\<lparr>sqs := AList.update url
                     (q\<lparr>inflight := filter (\<lambda>m. fst m \<noteq> handle) (inflight q)\<rparr>) (sqs w)\<rparr>)))"

definition sqs_url :: "string \<Rightarrow> string" where
  "sqs_url name = ''http://localhost:4566/000000000000/'' @ name"

text \<open>Creating a queue that exists with the same attributes returns the queue as it is.\<close>

definition sqs_create_queue :: "string \<Rightarrow> (string \<times> string) list option \<Rightarrow> unit io" where
  "sqs_create_queue name attrs = io_bind (request (SqsCreateQueue name attrs)) (\<lambda>_ w.
     (Inr (), if sqs_url name \<in> fst ` set (sqs w) then w
              else w\<lparr>sqs := sqs w @ [(sqs_url name,
                     \<lparr>visible = [], inflight = [], next_handle = 0\<rparr>)]\<rparr>))"

definition sqs_send_message :: "pyval \<Rightarrow> pyval \<Rightarrow> (string \<times> string) option \<Rightarrow> unit io" where
  "sqs_send_message queue_url message_body ids =
     io_bind (lift (param_str queue_url)) (\<lambda>url.
     io_bind (lift (param_str message_body)) (\<lambda>body.
     io_bind (request (SqsSendMessage url body ids)) (\<lambda>_ w.
       (case map_of (sqs w) url of
          None \<Rightarrow> (Inl (ClientError ''NonExistentQueue''), w)
        | Some q \<Rightarrow>
            (Inr (), w\<lparr>sqs := AList.update url (q\<lparr>visible := visible q @ [body]\<rparr>)
                                (sqs w)\<rparr>)))))"

definition dump_sqs_queues :: "string list \<Rightarrow> unit io" where
  "dump_sqs_queues x = (\<lambda>w. (Inr (),
     w\<lparr>files := (files w)\<lparr>sqs_queues_pickle := Some x\<rparr>,
       file_ops := file_ops w @ [WriteFile ''sqs_queues.pickle'']\<rparr>))"

definition dump_sqs_messages :: "pydict list \<Rightarrow> unit io" where
  "dump_sqs_messages x = (\<lambda>w. (Inr (),
     w\<lparr>files := (files w)\<lparr>sqs_messages_pickle := Some x\<rparr>,
       file_ops := file_ops w @ [WriteFile ''sqs_messages.pickle'']\<rparr>))"

subsection \<open>Queue backup\<close>

text \<open>Lines 134 to 137: one receive, one record appended, one delete.\<close>

definition backup_sqs_message :: "string \<Rightarrow> pydict list \<Rightarrow> pydict list io" where
  "backup_sqs_message queue_url all_messages =
     io_bind (sqs_receive_message queue_url) (\<lambda>response.
     (case response of
        None \<Rightarrow> raise (KeyError ''Messages'')
      | Some (body, receipt_handle) \<Rightarrow>
          io_bind (sqs_delete_message queue_url receipt_handle) (\<lambda>_.
          io_ret (all_messages @ [[(''queue'', PStr queue_url), (''body'', PStr body)]]))))"

text \<open>Lines 122 to 137: the body of the loop over the queues.\<close>

definition backup_sqs_queue :: "pydict list \<Rightarrow> string \<Rightarrow> pydict list io" where
  "backup_sqs_queue all_messages queue_url =
     io_bind (print (''Processing queue: '' @ queue_url)) (\<lambda>_.
     io_bind (sqs_get_queue_attributes queue_url) (\<lambda>msg_count.
     io_bind (print (''Expecting '' @ show_nat msg_count @ '' messages'')) (\<lambda>_.
     if msg_count > 0 then for_range msg_count (backup_sqs_message queue_url) all_messages
     else io_ret all_messages)))"

definition sqs_unreachable :: string where
  "sqs_unreachable = CHR 0x0A # ''***Unable to connect to LocalStack SQS service - make sure everything is running***'' @ [CHR 0x0A]"

text \<open>Lines 96 to 143. \<^verbatim>\<open>queues['QueueUrls']\<close> is indexed without a test.\<close>

definition backup_sqs :: "bool io" where
  "backup_sqs =
     io_bind (connect SQS) (\<lambda>sqs_conn.
     if sqs_conn then
       io_bind sqs_list_queues (\<lambda>queues.
       (case queues of
          None \<Rightarrow> raise (KeyError ''QueueUrls'')
        | Some queueUrls \<Rightarrow>
            io_bind (dump_sqs_queues queueUrls) (\<lambda>_.
            io_bind (for_acc backup_sqs_queue queueUrls []) (\<lambda>all_messages.
            io_bind (dump_sqs_messages all_messages) (\<lambda>_.
            io_ret False)))))
     else
       io_bind (print sqs_unreachable) (\<lambda>_. io_ret False))"

subsection \<open>Queue restore\<close>

text \<open>\<^verbatim>\<open>random.choice(seq)\<close> and lines 32 to 34.\<close>

definition random_choice :: "'a list \<Rightarrow> 'a io" where
  "random_choice xs = (\<lambda>w.
     if xs = [] then (Inl IndexError, w)
     else (Inr (xs ! (rng w (rng_pos w) mod length xs)), w\<lparr>rng_pos := Suc (rng_pos w)\<rparr>))"

definition ascii_letters :: string where
  "ascii_letters = ''abcdefghijklmnopqrstuvwxyzABCDEFGHIJKLMNOPQRSTUVWXYZ''"

definition gen_rand_str :: "nat \<Rightarrow> string io" where
  "gen_rand_str strlen =
     for_range strlen (\<lambda>s. io_bind (random_choice ascii_letters) (\<lambda>c. io_ret (s @ [c]))) []"

text \<open>\<^verbatim>\<open>v.endswith(t)\<close> on a value read from a record.\<close>

fun py_endswith :: "pyval \<Rightarrow> string \<Rightarrow> error + bool" where
  "py_endswith (PStr s) t = Inr (endswith s t)"
| "py_endswith (PBytes b) t = Inl TypeError"
| "py_endswith (PDict d) t = Inl (AttributeError ''endswith'')"

text \<open>Lines 263 to 275: the body of the loop over the persisted queue URLs.\<close>

definition restore_sqs_queue :: "string \<Rightarrow> unit io" where
  "restore_sqs_queue queue =
     (let queue_name = last_segment CHR ''/'' queue in
      io_bind (print (''Recreating '' @ queue_name)) (\<lambda>_.
      if endswith queue_name ''.fifo'' then
        sqs_create_queue queue_name
          (Some [(''FifoQueue'', ''true''), (''ContentBasedDeduplication'', ''true'')])
      else sqs_create_queue queue_name None))"

text \<open>Lines 285 to 296: the body of the loop over the persisted messages.\<close>

definition restore_sqs_message :: "pydict \<Rightarrow> unit io" where
  "restore_sqs_message message =
     io_bind (lift (dict_get message ''queue'')) (\<lambda>queue.
     io_bind (lift (py_endswith queue ''.fifo'')) (\<lambda>fifo.
     if fifo then
       io_bind (lift (dict_get message ''queue'')) (\<lambda>queue_url.
       io_bind (lift (dict_get message ''body'')) (\<lambda>body.
       io_bind (gen_rand_str 3) (\<lambda>group_id.
       io_bind (gen_rand_str 3) (\<lambda>dedup_id.
       sqs_send_message queue_url body (Some (group_id, dedup_id))))))
     else
       io_bind (lift (dict_get message ''queue'')) (\<lambda>queue_url.
       io_bind (lift (dict_get message ''body'')) (\<lambda>body.
       sqs_send_message queue_url body None))))"

text \<open>Lines 241 to 298.\<close>

definition restore_sqs :: "bool io" where
  "restore_sqs =
     io_bind (print ''Restoring SQS'') (\<lambda>_.
     io_bind (connect SQS) (\<lambda>sqs_conn.
     if sqs_conn then
       io_bind (load_file ''sqs_queues.pickle'' sqs_queues_pickle) (\<lambda>queue_list.
       io_bind (if length queue_list > 0 then for_each restore_sqs_queue queue_list
                else io_ret ()) (\<lambda>_.
       io_bind (load_file ''sqs_messages.pickle'' sqs_messages_pickle) (\<lambda>message_list.
       if length message_list > 0 then
         io_bind (print (''Restoring '' @ show_nat (length message_list) @ '' messages'')) (\<lambda>_.
         io_bind (for_each restore_sqs_message message_list) (\<lambda>_.
         io_ret False))
       else io_ret False)))
     else
       io_bind (print sqs_unreachable) (\<lambda>_. io_ret False)))"

section \<open>Topic backup and restore\<close>

subsection \<open>Topic requests\<close>

text \<open>
  \<^verbatim>\<open>list_topics\<close> always has \<^verbatim>\<open>'Topics'\<close> and
  \<^verbatim>\<open>list_subscriptions_by_topic\<close> always has \<^verbatim>\<open>'Subscriptions'\<close>. A subscription
  entry is a dictionary; the script probes it for keys, so it is kept as one.
\<close>

definition sns_list_topics :: "string list io" where
  "sns_list_topics = io_bind (request SnsListTopics) (\<lambda>_ w. (Inr (map fst (sns w)), w))"

definition sns_list_subscriptions_by_topic :: "string \<Rightarrow> pydict list io" where
  "sns_list_subscriptions_by_topic arn =
     io_bind (request (SnsListSubscriptionsByTopic arn)) (\<lambda>_ w.
       (case map_of (sns w) arn of
          None \<Rightarrow> Inl (ClientError ''NotFound'')
        | Some subs \<Rightarrow> Inr subs, w))"

definition sns_arn :: "string \<Rightarrow> string" where
  "sns_arn name = ''arn:aws:sns:us-east-1:000000000000:'' @ name"

definition sns_create_topic :: "string \<Rightarrow> unit io" where
  "sns_create_topic name = io_bind (request (SnsCreateTopic name)) (\<lambda>_ w.
     (Inr (), if sns_arn name \<in> fst ` set (sns w) then w
              else w\<lparr>sns := sns w @ [(sns_arn name, [])]\<rparr>))"

definition sns_subscribe ::
  "pyval \<Rightarrow> pyval \<Rightarrow> pyval \<Rightarrow> (string \<times> string) list option \<Rightarrow> unit io" where
  "sns_subscribe topic_arn protocol endpoint attrs =
     io_bind (lift (param_str topic_arn)) (\<lambda>t.
     io_bind (lift (param_str protocol)) (\<lambda>p.
     io_bind (lift (param_str endpoint)) (\<lambda>e.
     io_bind (request (SnsSubscribe t p e attrs)) (\<lambda>_ w.
       (case map_of (sns w) t of
          None \<Rightarrow> (Inl (ClientError ''NotFound''), w)
        | Some subs \<Rightarrow>
            (Inr (), w\<lparr>sns := AList.update t
                       (subs @ [[(''SubscriptionArn'',
                                    PStr (t @ '':'' @ show_nat (length subs))),
                                 (''Owner'', PStr ''000000000000''),
                                 (''Protocol'', PStr p),
                                 (''Endpoint'', PStr e),
                                 (''TopicArn'', PStr t)]]) (sns w)\<rparr>))))))"

definition dump_sns_topics :: "string list \<Rightarrow> unit io" where
  "dump_sns_topics x = (\<lambda>w. (Inr (),
     w\<lparr>files := (files w)\<lparr>sns_topics_pickle := Some x\<rparr>,
       file_ops := file_ops w @ [WriteFile ''sns_topics.pickle'']\<rparr>))"

definition dump_sns_subs :: "pydict list \<Rightarrow> unit io" where
  "dump_sns_subs x = (\<lambda>w. (Inr (),
     w\<lparr>files := (files w)\<lparr>sns_subs_pickle := Some x\<rparr>,
       file_ops := file_ops w @ [WriteFile ''sns_subs.pickle'']\<rparr>))"

subsection \<open>Topic backup\<close>

definition and_then :: "error + 'a \<Rightarrow> ('a \<Rightarrow> error + 'b) \<Rightarrow> error + 'b" where
  "and_then r f = (case r of Inl e \<Rightarrow> Inl e | Inr x \<Rightarrow> f x)"

text \<open>
  The condition of line 183:
  \<^verbatim>\<open>'RawMessageDelivery' in subscription and 'RedrivePolicy' in
  subscription['RawMessageDelivery']\<close>.
\<close>

definition dlq_test :: "pydict \<Rightarrow> error + bool" where
  "dlq_test subscription =
     (if dict_has subscription ''RawMessageDelivery'' then
        and_then (dict_get subscription ''RawMessageDelivery'') (py_contains ''RedrivePolicy'')
      else Inr False)"

text \<open>Lines 179 to 185: the record built for one subscription entry of a topic.\<close>

definition subscription_record :: "string \<Rightarrow> pydict \<Rightarrow> error + pydict" where
  "subscription_record topic subscription =
     and_then (dict_get subscription ''SubscriptionArn'') (\<lambda>sub_arn.
     and_then (dict_get subscription ''Protocol'') (\<lambda>protocol.
     and_then (dict_get subscription ''Endpoint'') (\<lambda>endpoint.
     (let this_sub = [(''topicARN'', PStr topic), (''subARN'', sub_arn),
                      (''protocol'', protocol), (''endpoint'', endpoint)] in
      and_then (dlq_test subscription) (\<lambda>dlq.
      if dlq then
        and_then (dict_get subscription ''RawMessageDelivery'') (\<lambda>raw.
        and_then (py_getitem raw ''RedrivePolicy'') (\<lambda>redrive_policy.
        and_then (py_getitem redrive_policy ''deadLetterTargetArn'') (\<lambda>dlq_arn.
        Inr (dict_set this_sub ''DLQARN'' dlq_arn))))
      else Inr this_sub)))))"

text \<open>Lines 178 to 186: the body of the loop over the subscriptions of a topic.\<close>

definition backup_sns_subscription :: "string \<Rightarrow> pydict list \<Rightarrow> pydict \<Rightarrow> pydict list io" where
  "backup_sns_subscription topic subscription_list subscription =
     io_bind (lift (subscription_record topic subscription)) (\<lambda>this_sub.
     io_ret (subscription_list @ [this_sub]))"

text \<open>Lines 175 to 186: the body of the loop over the topics.\<close>

definition backup_sns_topic :: "pydict list \<Rightarrow> string \<Rightarrow> pydict list io" where
  "backup_sns_topic subscription_list topic =
     io_bind (sns_list_subscriptions_by_topic topic) (\<lambda>subscriptions.
     for_acc (backup_sns_subscription topic) subscriptions subscription_list)"

definition sns_unreachable :: string where
  "sns_unreachable = ''Error connecting to SNS!!!''"

text \<open>Lines 149 to 192. Nothing is written when there is no topic.\<close>

definition backup_sns :: "bool io" where
  "backup_sns =
     io_bind (connect SNS) (\<lambda>sns_conn.
     if sns_conn then
       io_bind sns_list_topics (\<lambda>topics.
       if length topics > 0 then
         io_bind (dump_sns_topics topics) (\<lambda>_.
         io_bind (for_acc backup_sns_topic topics []) (\<lambda>subscription_list.
         io_bind (dump_sns_subs subscription_list) (\<lambda>_.
         io_ret False)))
       else io_ret False)
     else
       io_bind (print sns_unreachable) (\<lambda>_. io_ret False))"

subsection \<open>Topic restore\<close>

text \<open>
  \<^verbatim>\<open>subscription.has_key(k)\<close> of line 332. A Python 3 dictionary has no attribute
  \<^verbatim>\<open>has_key\<close>, whatever its content and whatever the key.
\<close>

definition dict_has_key :: "pydict \<Rightarrow> string \<Rightarrow> error + bool" where
  "dict_has_key d k = Inl (AttributeError ''has_key'')"

text \<open>
  The two literals of line 338, \<^verbatim>\<open>'{ "deadLetterTargetArn": "'\<close> and
  \<^verbatim>\<open>'", "maxReceiveCount": "5"}'\<close>.
\<close>

definition dq :: char where
  "dq = CHR 0x22"

definition policy_prefix :: string where
  "policy_prefix = ''{ '' @ [dq] @ ''deadLetterTargetArn'' @ [dq] @ '': '' @ [dq]"

definition policy_suffix :: string where
  "policy_suffix = [dq] @ '', '' @ [dq] @ ''maxReceiveCount'' @ [dq] @ '': '' @ [dq] @ ''5''
                   @ [dq] @ ''}''"

text \<open>
  Lines 333 to 346: the two \<^verbatim>\<open>subscribe\<close> requests, by the outcome of the test of
  line 332.
\<close>

definition subscribe_from_record :: "bool \<Rightarrow> pydict \<Rightarrow> unit io" where
  "subscribe_from_record dlq subscription =
     (if dlq then
        io_bind (lift (dict_get subscription ''TopicARN'')) (\<lambda>topic_arn.
        io_bind (lift (dict_get subscription ''Protocol'')) (\<lambda>protocol.
        io_bind (lift (dict_get subscription ''Endpoint'')) (\<lambda>endpoint.
        io_bind (lift (dict_get subscription ''DLQARN'')) (\<lambda>dlq_arn.
        io_bind (lift (py_concat3 policy_prefix dlq_arn policy_suffix)) (\<lambda>policy.
        sns_subscribe topic_arn protocol endpoint (Some [(''RedrivePolicy'', policy)]))))))
      else
        io_bind (lift (dict_get subscription ''TopicARN'')) (\<lambda>topic_arn.
        io_bind (lift (dict_get subscription ''Protocol'')) (\<lambda>protocol.
        io_bind (lift (dict_get subscription ''Endpoint'')) (\<lambda>endpoint.
        sns_subscribe topic_arn protocol endpoint None))))"

text \<open>Lines 332 to 346: the body of the loop over the persisted subscription records.\<close>

definition restore_sns_subscription :: "pydict \<Rightarrow> unit io" where
  "restore_sns_subscription subscription =
     io_bind (lift (dict_has_key subscription ''DLQARN'')) (\<lambda>dlq.
     subscribe_from_record dlq subscription)"

text \<open>Lines 320 to 322.\<close>

definition restore_sns_topic :: "string \<Rightarrow> unit io" where
  "restore_sns_topic topic =
     (let topic_name = last_segment CHR '':'' topic in
      io_bind (print (''Restoring SNS topic: '' @ topic_name)) (\<lambda>_.
      sns_create_topic topic_name))"

text \<open>Lines 304 to 347.\<close>

definition restore_sns :: "bool io" where
  "restore_sns =
     io_bind (connect SNS) (\<lambda>sns_conn.
     if sns_conn then
       io_bind (load_file ''sns_topics.pickle'' sns_topics_pickle) (\<lambda>topic_list.
       io_bind (if length topic_list > 0 then for_each restore_sns_topic topic_list
                else io_ret ()) (\<lambda>_.
       io_bind (load_file ''sns_subs.pickle'' sns_subs_pickle) (\<lambda>subscriptions.
       if length subscriptions > 0 then
         io_bind (print (''Restoring '' @ show_nat (length subscriptions)
                         @ '' SNS subscriptions'')) (\<lambda>_.
         io_bind (for_each restore_sns_subscription subscriptions) (\<lambda>_.
         io_ret False))
       else io_ret False)))
     else
       io_bind (print sns_unreachable) (\<lambda>_. io_ret False))"

section \<open>The two runs and the prompt\<close>

text \<open>Lines 197 to 200 and 353 to 356: the three steps in order; the status is dropped.\<close>

definition backup :: "unit io" where
  "backup =
     io_bind backup_s3 (\<lambda>_.
     io_bind backup_sqs (\<lambda>_.
     io_bind backup_sns (\<lambda>_.
     io_ret ())))"

definition restore :: "unit io" where
  "restore =
     io_bind restore_s3 (\<lambda>_.
     io_bind restore_sqs (\<lambda>_.
     io_bind restore_sns (\<lambda>_.
     io_ret ())))"

definition invalid_choice :: string where
  "invalid_choice = CHR 0x0A # ''***Invalid choice - exiting***''"

definition banner :: "string list" where
  "banner = [[CHR 0x0A, CHR 0x0A, CHR 0x0A],
             ''What would you like to do?'',
             ''    [b]ackup LocalStack state'',
             ''    [r]estore LocalStack state'' @ [CHR 0x0A],
             ''Please enter your choice '' @ [CHR 0x27] @ ''b'' @ [CHR 0x27] @ '' or ''
               @ [CHR 0x27] @ ''r'' @ [CHR 0x27] @ '': '']"

definition farewell :: string where
  "farewell = CHR 0x0A # ''Thanks for using the LocalStack backup tool!'' @ [CHR 0x0A]"

text \<open>
  Lines 362 to 376. The argument is the line that \<^verbatim>\<open>input\<close> returns; the prompt goes
  to the output like the lines printed before it.
\<close>

definition main :: "string \<Rightarrow> unit io" where
  "main typed =
     io_bind (for_each print banner) (\<lambda>_.
     (let choice = lower typed in
      io_bind (if choice \<notin> set [''b'', ''r''] then print invalid_choice
               else if choice = ''b'' then backup
               else restore) (\<lambda>_.
      print farewell)))"

section \<open>Vocabulary of the properties\<close>

text \<open>
  A world with its two output logs erased: what a step that only prints and sends
  read-only requests leaves unchanged.
\<close>

definition unlogged :: "world \<Rightarrow> world" where
  "unlogged w = w\<lparr>stdout := [], calls := []\<rparr>"

subsection \<open>Object storage\<close>

text \<open>The record that lines 81 to 85 append for an object (key and body) of a bucket.\<close>

definition object_record :: "string \<Rightarrow> string \<times> string \<Rightarrow> pydict" where
  "object_record bucket obj =
     [(''bucket_name'', PStr bucket), (''object_key'', PStr (fst obj)),
      (''object_body'', PBytes (snd obj))]"

definition bucket_records :: "string \<times> (string \<times> string) list \<Rightarrow> pydict list" where
  "bucket_records bucket = map (object_record (fst bucket)) (snd bucket)"

definition empty_bucket ::
  "string \<times> (string \<times> string) list \<Rightarrow> string \<times> (string \<times> string) list" where
  "empty_bucket bucket = (fst bucket, [])"

text \<open>Bucket names are unique, and so are the keys within a bucket.\<close>

definition well_formed_s3 :: "s3_state \<Rightarrow> bool" where
  "well_formed_s3 st \<longleftrightarrow>
     distinct (map fst st) \<and> list_all (\<lambda>bucket. distinct (map fst (snd bucket))) st"

subsection \<open>Queues\<close>

text \<open>
  What a queue URL stands for in a world: the messages the queue can deliver and the
  messages in flight (both empty for a URL that names no queue).
\<close>

definition pending :: "world \<Rightarrow> string \<Rightarrow> string list" where
  "pending w url = (case map_of (sqs w) url of None \<Rightarrow> [] | Some q \<Rightarrow> visible q)"

definition unacked :: "world \<Rightarrow> string \<Rightarrow> (nat \<times> string) list" where
  "unacked w url = (case map_of (sqs w) url of None \<Rightarrow> [] | Some q \<Rightarrow> inflight q)"

text \<open>The record that line 136 appends for a message.\<close>

definition message_record :: "string \<Rightarrow> string \<Rightarrow> pydict" where
  "message_record url body = [(''queue'', PStr url), (''body'', PStr body)]"

text \<open>What the receive-and-delete loop leaves unchanged.\<close>

definition same_dir :: "world \<Rightarrow> world \<Rightarrow> bool" where
  "same_dir w1 w \<longleftrightarrow> files w1 = files w \<and> file_ops w1 = file_ops w
     \<and> sqs_client_ok w1 = sqs_client_ok w \<and> map fst (sqs w1) = map fst (sqs w)"

text \<open>
  The final path segment of a URL in the specification's words: what follows the last
  separator (the whole string when there is none).
\<close>

definition final_segment :: "char \<Rightarrow> string \<Rightarrow> string" where
  "final_segment c s = rev (takeWhile (\<lambda>x. x \<noteq> c) (rev s))"

text \<open>The request that the specification expects for a persisted queue URL.\<close>

definition expected_create_queue :: "string \<Rightarrow> api_call" where
  "expected_create_queue url =
     (let name = final_segment CHR ''/'' url in
      SqsCreateQueue name
        (if suffix ''.fifo'' name
         then Some [(''FifoQueue'', ''true''), (''ContentBasedDeduplication'', ''true'')]
         else None))"

fun is_send_message :: "api_call \<Rightarrow> bool" where
  "is_send_message (SqsSendMessage url body ids) = True"
| "is_send_message other = False"

subsection \<open>Topics\<close>

text \<open>
  The shape under which the specification says dead-letter metadata is captured: the
  entry has a \<^verbatim>\<open>RawMessageDelivery\<close> field that is a dictionary with a
  \<^verbatim>\<open>RedrivePolicy\<close> key.
\<close>

definition dlq_shape :: "pydict \<Rightarrow> bool" where
  "dlq_shape subscription =
     (case map_of subscription ''RawMessageDelivery'' of
        Some (PDict raw) \<Rightarrow> dict_has raw ''RedrivePolicy''
      | _ \<Rightarrow> False)"

text \<open>A persisted subscription record without dead-letter metadata.\<close>

definition plain_record :: "string \<Rightarrow> pyval \<Rightarrow> pyval \<Rightarrow> pyval \<Rightarrow> pydict" where
  "plain_record topic sub_arn protocol endpoint =
     [(''topicARN'', PStr topic), (''subARN'', sub_arn),
      (''protocol'', protocol), (''endpoint'', endpoint)]"

text \<open>The subscription entries that the listings return, each with the ARN of its topic.\<close>

definition topic_subscriptions :: "world \<Rightarrow> string \<Rightarrow> pydict list" where
  "topic_subscriptions w topic =
     (case map_of (sns w) topic of None \<Rightarrow> [] | Some subs \<Rightarrow> subs)"

definition listed_subscriptions :: "world \<Rightarrow> (string \<times> pydict) list" where
  "listed_subscriptions w =
     concat (map (\<lambda>topic. map (Pair topic) (topic_subscriptions w topic)) (map fst (sns w)))"

text \<open>\<open>this_sub\<close> is the record that lines 179 to 185 build for an entry of a topic.\<close>

definition record_of :: "pydict \<Rightarrow> string \<times> pydict \<Rightarrow> bool" where
  "record_of this_sub entry \<longleftrightarrow>
     subscription_record (fst entry) (snd entry) = Inr this_sub"

text \<open>
  The value of a field of a subscription entry (an empty string when the entry lacks it),
  and the plain four-field record of an entry of a topic.
\<close>

definition entry_field :: "pydict \<Rightarrow> string \<Rightarrow> pyval" where
  "entry_field subscription k =
     (case map_of subscription k of None \<Rightarrow> PStr [] | Some v \<Rightarrow> v)"

definition entry_plain :: "string \<times> pydict \<Rightarrow> pydict" where
  "entry_plain entry =
     plain_record (fst entry) (entry_field (snd entry) ''SubscriptionArn'')
       (entry_field (snd entry) ''Protocol'') (entry_field (snd entry) ''Endpoint'')"

text \<open>
  The \<^verbatim>\<open>deadLetterTargetArn\<close> of an entry: present when \<^verbatim>\<open>RawMessageDelivery\<close> is a
  dictionary whose \<^verbatim>\<open>RedrivePolicy\<close> is a dictionary with that key.
\<close>

definition dlq_arn :: "pydict \<Rightarrow> pyval option" where
  "dlq_arn subscription =
     (case map_of subscription ''RawMessageDelivery'' of
        Some (PDict raw) \<Rightarrow>
          (case map_of raw ''RedrivePolicy'' of
             Some (PDict policy) \<Rightarrow> map_of policy ''deadLetterTargetArn''
           | _ \<Rightarrow> None)
      | _ \<Rightarrow> None)"

text \<open>
  The entries for which a record can be built: the three fields of every listing entry
  are there, and \<^verbatim>\<open>RawMessageDelivery\<close> is absent, or does not contain
  \<^verbatim>\<open>RedrivePolicy\<close> (as a key of a dictionary, as a substring of a string), or is a
  dictionary whose \<^verbatim>\<open>RedrivePolicy\<close> is a dictionary with
  \<^verbatim>\<open>deadLetterTargetArn\<close>.
\<close>

definition recordable :: "pydict \<Rightarrow> bool" where
  "recordable subscription \<longleftrightarrow>
     dict_has subscription ''SubscriptionArn'' \<and> dict_has subscription ''Protocol''
     \<and> dict_has subscription ''Endpoint''
     \<and> (case map_of subscription ''RawMessageDelivery'' of
          None \<Rightarrow> True
        | Some (PDict raw) \<Rightarrow>
            (if dict_has raw ''RedrivePolicy'' then dlq_arn subscription \<noteq> None else True)
        | Some (PStr s) \<Rightarrow> \<not> sublist ''RedrivePolicy'' s
        | Some (PBytes b) \<Rightarrow> False)"

text \<open>
  What the specification says of the record persisted for an entry: when the entry has
  the dead-letter shape, the record is the plain record followed by \<^verbatim>\<open>DLQARN\<close> with
  the \<^verbatim>\<open>deadLetterTargetArn\<close> of the policy; otherwise it is the plain record.
\<close>

definition dlq_recorded :: "pydict \<Rightarrow> string \<times> pydict \<Rightarrow> bool" where
  "dlq_recorded this_sub entry \<longleftrightarrow>
     (if dlq_shape (snd entry) then
        (case dlq_arn (snd entry) of
           None \<Rightarrow> False
         | Some arn \<Rightarrow> this_sub = entry_plain entry @ [(''DLQARN'', arn)])
      else this_sub = entry_plain entry)"

section \<open>Example environments\<close>

definition no_files :: snapshot_files where
  "no_files = \<lparr>s3_buckets_pickle = None, s3_objects_pickle = None,
                sqs_queues_pickle = None, sqs_messages_pickle = None,
                sns_topics_pickle = None, sns_subs_pickle = None\<rparr>"

text \<open>No bucket, no queue, no topic, no snapshot file; every client can be created.\<close>

definition empty_world :: world where
  "empty_world = \<lparr>s3_client_ok = True, sqs_client_ok = True, sns_client_ok = True,
                   s3 = [], sqs = [], sns = [], files = no_files,
                   rng = (\<lambda>i. i), rng_pos = 0,
                   stdout = [], calls = [], file_ops = []\<rparr>"

text \<open>Storage with one bucket that holds two objects.\<close>

definition photo_world :: world where
  "photo_world =
     empty_world\<lparr>s3 := [(''photos'', [(''cat.png'', ''PNG''), (''dog.jpg'', ''JFIF'')])]\<rparr>"

text \<open>Storage with one bucket that holds an object and one bucket that holds none.\<close>

definition empty_bucket_world :: world where
  "empty_bucket_world =
     empty_world\<lparr>s3 := [(''photos'', [(''cat.png'', ''PNG'')]), (''scratch'', [])]\<rparr>"

text \<open>A working directory whose bucket file is an empty list and whose object file is not.\<close>

definition orphan_object_world :: world where
  "orphan_object_world =
     empty_world\<lparr>files := no_files\<lparr>s3_buckets_pickle := Some [],
       s3_objects_pickle := Some [[(''bucket_name'', PStr ''photos''),
                                   (''object_key'', PStr ''cat.png''),
                                   (''object_body'', PBytes ''PNG'')]]\<rparr>\<rparr>"

text \<open>Two queues, with two messages and one message.\<close>

definition two_queue_world :: world where
  "two_queue_world =
     empty_world\<lparr>sqs :=
       [(''http://localhost:4566/000000000000/jobs'',
           \<lparr>visible = [''first'', ''second''], inflight = [], next_handle = 0\<rparr>),
        (''http://localhost:4566/000000000000/orders.fifo'',
           \<lparr>visible = [''only''], inflight = [], next_handle = 0\<rparr>)]\<rparr>"

text \<open>A working directory with two persisted queue URLs and one persisted message.\<close>

definition queue_snapshot_world :: world where
  "queue_snapshot_world =
     empty_world\<lparr>files := no_files\<lparr>
       sqs_queues_pickle := Some [''http://localhost:4566/000000000000/jobs'',
                                  ''http://localhost:4566/000000000000/orders.fifo''],
       sqs_messages_pickle := Some [[(''queue'', PStr ''http://localhost:4566/000000000000/jobs''),
                                     (''body'', PStr ''hello'')]]\<rparr>\<rparr>"

text \<open>A subscription entry as the listing of a topic returns it.\<close>

definition email_subscription :: pydict where
  "email_subscription =
     [(''SubscriptionArn'', PStr ''arn:aws:sns:us-east-1:000000000000:news:1''),
      (''Owner'', PStr ''000000000000''),
      (''Protocol'', PStr ''email''),
      (''Endpoint'', PStr ''me@example.com''),
      (''TopicArn'', PStr ''arn:aws:sns:us-east-1:000000000000:news'')]"

text \<open>A subscription entry of the shape that line 183 looks for.\<close>

definition dlq_subscription :: pydict where
  "dlq_subscription =
     [(''SubscriptionArn'', PStr ''arn:aws:sns:us-east-1:000000000000:news:2''),
      (''Protocol'', PStr ''sqs''),
      (''Endpoint'', PStr ''arn:aws:sqs:us-east-1:000000000000:inbox''),
      (''RawMessageDelivery'',
         PDict [(''RedrivePolicy'',
                 PDict [(''deadLetterTargetArn'',
                         PStr ''arn:aws:sqs:us-east-1:000000000000:dead'')])])]"

text \<open>
  A subscription entry whose \<^verbatim>\<open>RawMessageDelivery\<close> dictionary has
  \<^verbatim>\<open>RedrivePolicy\<close> as a string, and a world whose only topic has this subscription.
\<close>

definition string_policy_subscription :: pydict where
  "string_policy_subscription =
     [(''SubscriptionArn'', PStr ''arn:aws:sns:us-east-1:000000000000:news:3''),
      (''Protocol'', PStr ''sqs''),
      (''Endpoint'', PStr ''arn:aws:sqs:us-east-1:000000000000:inbox''),
      (''RawMessageDelivery'', PDict [(''RedrivePolicy'', PStr ''{}'')])]"

definition string_policy_world :: world where
  "string_policy_world =
     empty_world\<lparr>sns := [(''arn:aws:sns:us-east-1:000000000000:news'',
                            [string_policy_subscription])]\<rparr>"

text \<open>One topic with a plain subscription and a subscription of the dead-letter shape.\<close>

definition dlq_world :: world where
  "dlq_world =
     empty_world\<lparr>sns := [(''arn:aws:sns:us-east-1:000000000000:news'',
                            [email_subscription, dlq_subscription])]\<rparr>"

text \<open>One topic with one subscription.\<close>

definition news_world :: world where
  "news_world =
     empty_world\<lparr>sns := [(''arn:aws:sns:us-east-1:000000000000:news'',
                            [email_subscription])]\<rparr>"

text \<open>A working directory with one topic and one subscription record in the snapshot.\<close>

definition one_subscription_world :: world where
  "one_subscription_world =
     empty_world\<lparr>files := no_files\<lparr>
       sns_topics_pickle := Some [''arn:aws:sns:us-east-1:000000000000:news''],
       sns_subs_pickle := Some [[(''topicARN'', PStr ''arn:aws:sns:us-east-1:000000000000:news''),
                                 (''subARN'', PStr ''arn:aws:sns:us-east-1:000000000000:news:1''),
                                 (''protocol'', PStr ''email''),
                                 (''endpoint'', PStr ''me@example.com'')]]\<rparr>\<rparr>"

section \<open>Properties\<close>

lemmas io_defs = io_bind_def io_ret_def raise_def lift_def print_def request_def connect_def

lemma for_each_print: "for_each print xs w = (Inr (), w\<lparr>stdout := stdout w @ xs\<rparr>)"
  by (induction xs arbitrary: w) (simp_all add: io_defs)

lemma for_each_append:
  "for_each f (xs @ ys) w =
     (case for_each f xs w of (Inl e, w1) \<Rightarrow> (Inl e, w1) | (Inr u, w1) \<Rightarrow> for_each f ys w1)"
proof (induction xs arbitrary: w)
  case Nil
  show ?case by (simp add: io_ret_def)
next
  case (Cons x xs)
  show ?case
    by (cases "f x w") (auto simp: io_bind_def Cons.IH split: sum.splits)
qed

subsection \<open>Steps that only log\<close>

lemma unlogged_fields:
  assumes "unlogged w1 = unlogged w"
  shows "s3 w1 = s3 w" "sqs w1 = sqs w" "sns w1 = sns w" "files w1 = files w"
    "file_ops w1 = file_ops w" "s3_client_ok w1 = s3_client_ok w"
    "sqs_client_ok w1 = sqs_client_ok w" "sns_client_ok w1 = sns_client_ok w"
    "rng w1 = rng w" "rng_pos w1 = rng_pos w"
proof -
  have "s3 (unlogged w1) = s3 (unlogged w)" "sqs (unlogged w1) = sqs (unlogged w)"
    "sns (unlogged w1) = sns (unlogged w)" "files (unlogged w1) = files (unlogged w)"
    "file_ops (unlogged w1) = file_ops (unlogged w)"
    "s3_client_ok (unlogged w1) = s3_client_ok (unlogged w)"
    "sqs_client_ok (unlogged w1) = sqs_client_ok (unlogged w)"
    "sns_client_ok (unlogged w1) = sns_client_ok (unlogged w)"
    "rng (unlogged w1) = rng (unlogged w)" "rng_pos (unlogged w1) = rng_pos (unlogged w)"
    using assms by simp_all
  then show "s3 w1 = s3 w" "sqs w1 = sqs w" "sns w1 = sns w" "files w1 = files w"
    "file_ops w1 = file_ops w" "s3_client_ok w1 = s3_client_ok w"
    "sqs_client_ok w1 = sqs_client_ok w" "sns_client_ok w1 = sns_client_ok w"
    "rng w1 = rng w" "rng_pos w1 = rng_pos w"
    by (simp_all add: unlogged_def)
qed

lemma unlogged_log [simp]:
  "unlogged (w\<lparr>stdout := out\<rparr>) = unlogged w"
  "unlogged (w\<lparr>calls := cs\<rparr>) = unlogged w"
  by (simp_all add: unlogged_def)

subsection \<open>The prompt\<close>

text \<open>
  C8. When the line typed, lower-cased, is neither \<^verbatim>\<open>b\<close> nor \<^verbatim>\<open>r\<close>, the program
  prints the invalid-choice message between the banner and the farewell and changes
  nothing else: the services, the snapshot files, the log of requests and the log of
  files opened are those it started with.
\<close>

theorem main_invalid_choice:
  assumes "lower typed \<noteq> ''b''" and "lower typed \<noteq> ''r''"
  shows "main typed w =
           (Inr (), w\<lparr>stdout := stdout w @ banner @ [invalid_choice, farewell]\<rparr>)"
  using assms by (simp add: main_def for_each_print io_defs)

theorem main_invalid_choice_witness:
  "lower ''Q'' \<noteq> ''b'' \<and> lower ''Q'' \<noteq> ''r'' \<and>
   main ''Q'' empty_world =
     (Inr (), empty_world\<lparr>stdout := banner @ [invalid_choice, farewell]\<rparr>)"
proof -
  have b: "lower ''Q'' \<noteq> ''b''"
    by code_simp
  have r: "lower ''Q'' \<noteq> ''r''"
    by code_simp
  show ?thesis
    using main_invalid_choice [OF b r, of empty_world] b r
    by (simp add: empty_world_def)
qed

subsection \<open>Object storage backup\<close>

lemma backup_s3_object_step:
  assumes "map_of (s3 w) b = Some objs" and "map_of objs k = Some body"
  shows "\<exists>w1. backup_s3_object b acc k w =
            (Inr (acc @ [[(''bucket_name'', PStr b), (''object_key'', PStr k),
                          (''object_body'', PBytes body)]]), w1)
           \<and> unlogged w1 = unlogged w"
  using assms by (simp add: backup_s3_object_def s3_get_object_def io_defs)

lemma backup_s3_objects_loop:
  assumes "map_of (s3 w) b = Some objs" and "set keys \<subseteq> fst ` set objs"
  shows "\<exists>w1. for_acc (backup_s3_object b) keys acc w =
            (Inr (acc @ map (\<lambda>k. [(''bucket_name'', PStr b), (''object_key'', PStr k),
                                     (''object_body'', PBytes (the (map_of objs k)))]) keys), w1)
           \<and> unlogged w1 = unlogged w"
  using assms
proof (induction keys arbitrary: w acc)
  case Nil
  show ?case by (simp add: io_ret_def)
next
  case (Cons k keys)
  from Cons.prems obtain body where body: "map_of objs k = Some body"
    by (cases "map_of objs k") (auto simp: map_of_eq_None_iff)
  obtain w1 where s: "backup_s3_object b acc k w =
            (Inr (acc @ [[(''bucket_name'', PStr b), (''object_key'', PStr k),
                          (''object_body'', PBytes body)]]), w1)" "unlogged w1 = unlogged w"
    using backup_s3_object_step [OF Cons.prems(1) body] by blast
  have s3: "map_of (s3 w1) b = Some objs"
    using unlogged_fields(1) [OF s(2)] Cons.prems(1) by simp
  have sub: "set keys \<subseteq> fst ` set objs" using Cons.prems(2) by simp
  let ?acc1 = "acc @ [[(''bucket_name'', PStr b), (''object_key'', PStr k),
                        (''object_body'', PBytes body)]]"
  obtain w2 where l: "for_acc (backup_s3_object b) keys ?acc1 w1 =
            (Inr (?acc1 @ map (\<lambda>k. [(''bucket_name'', PStr b), (''object_key'', PStr k),
                                     (''object_body'', PBytes (the (map_of objs k)))]) keys), w2)"
      "unlogged w2 = unlogged w1"
    using Cons.IH [OF s3 sub, of ?acc1] by blast
  have "for_acc (backup_s3_object b) (k # keys) acc w = for_acc (backup_s3_object b) keys ?acc1 w1"
    using s(1) by (simp add: io_bind_def)
  then show ?case
    using l s(2) body by simp
qed

lemma backup_s3_bucket_empty:
  assumes "map_of (s3 w) b = Some []"
  shows "\<exists>w1. backup_s3_bucket acc b w = (Inl (KeyError ''Contents''), w1)
           \<and> unlogged w1 = unlogged w"
  using assms by (simp add: backup_s3_bucket_def s3_list_objects_def io_defs)

lemma backup_s3_bucket_nonempty:
  assumes "map_of (s3 w) b = Some objs" and "objs \<noteq> []"
  shows "\<exists>w1. backup_s3_bucket acc b w =
            (Inr (acc @ map (\<lambda>k. [(''bucket_name'', PStr b), (''object_key'', PStr k),
                                     (''object_body'', PBytes (the (map_of objs k)))])
                            (map fst objs)), w1)
           \<and> unlogged w1 = unlogged w"
proof -
  let ?w0 = "w\<lparr>stdout := stdout w @ [''Working on bucket '' @ b],
               calls := calls w @ [S3ListObjects b]\<rparr>"
  have m: "map_of (s3 ?w0) b = Some objs" using assms(1) by simp
  obtain w1 where l: "for_acc (backup_s3_object b) (map fst objs) acc ?w0 =
            (Inr (acc @ map (\<lambda>k. [(''bucket_name'', PStr b), (''object_key'', PStr k),
                                     (''object_body'', PBytes (the (map_of objs k)))])
                            (map fst objs)), w1)" "unlogged w1 = unlogged ?w0"
    using backup_s3_objects_loop [OF m, of "map fst objs" acc] by auto
  have "backup_s3_bucket acc b w = for_acc (backup_s3_object b) (map fst objs) acc ?w0"
    using assms by (simp add: backup_s3_bucket_def s3_list_objects_def io_defs)
  then show ?thesis using l by simp
qed

lemma backup_s3_buckets_fault:
  assumes "\<forall>b\<in>set bs. map_of (s3 w) b \<noteq> None" and "\<exists>b\<in>set bs. map_of (s3 w) b = Some []"
  shows "\<exists>w1. for_acc backup_s3_bucket bs acc w = (Inl (KeyError ''Contents''), w1)
           \<and> unlogged w1 = unlogged w"
  using assms
proof (induction bs arbitrary: w acc)
  case Nil
  then show ?case by simp
next
  case (Cons b bs)
  from Cons.prems(1) obtain objs where objs: "map_of (s3 w) b = Some objs" by auto
  show ?case
  proof (cases "objs = []")
    case True
    then show ?thesis
      using backup_s3_bucket_empty [of w b acc] objs by (auto simp: io_bind_def)
  next
    case False
    obtain r w1 where s: "backup_s3_bucket acc b w = (Inr r, w1)" "unlogged w1 = unlogged w"
      using backup_s3_bucket_nonempty [OF objs False, of acc] by blast
    have eq: "s3 w1 = s3 w" using unlogged_fields(1) [OF s(2)] .
    have p1: "\<forall>b\<in>set bs. map_of (s3 w1) b \<noteq> None" using Cons.prems(1) eq by simp
    have p2: "\<exists>b\<in>set bs. map_of (s3 w1) b = Some []"
      using Cons.prems(2) eq objs False by auto
    show ?thesis
      using Cons.IH [OF p1 p2, of r] s by (auto simp: io_bind_def)
  qed
qed

text \<open>
  C10. When the client can be created and the storage has a bucket without objects,
  \<^verbatim>\<open>backup_s3\<close> ends in \<^verbatim>\<open>KeyError('Contents')\<close>. The bucket file has been
  written by then; it is the only file opened, so the object file is not written. The
  exception leaves \<^verbatim>\<open>backup\<close> as well: the run ends where \<^verbatim>\<open>backup_s3\<close> ended.
\<close>

theorem backup_s3_empty_bucket_fault:
  assumes "s3_client_ok w" and "map_of (s3 w) b = Some []"
  shows "fst (backup_s3 w) = Inl (KeyError ''Contents'')
       \<and> files (snd (backup_s3 w)) = (files w)\<lparr>s3_buckets_pickle := Some (map fst (s3 w))\<rparr>
       \<and> file_ops (snd (backup_s3 w)) = file_ops w @ [WriteFile ''s3_buckets.pickle'']
       \<and> fst (backup w) = Inl (KeyError ''Contents'')
       \<and> snd (backup w) = snd (backup_s3 w)"
proof -
  let ?bs = "map fst (s3 w)"
  let ?w2 = "w\<lparr>calls := calls w @ [S3ListBuckets],
               files := (files w)\<lparr>s3_buckets_pickle := Some ?bs\<rparr>,
               file_ops := file_ops w @ [WriteFile ''s3_buckets.pickle'']\<rparr>"
  have p1: "\<forall>b\<in>set ?bs. map_of (s3 ?w2) b \<noteq> None"
    by (auto simp: map_of_eq_None_iff)
  have "b \<in> set ?bs" using assms(2) by (auto dest: map_of_SomeD intro: rev_image_eqI)
  then have p2: "\<exists>b\<in>set ?bs. map_of (s3 ?w2) b = Some []" using assms(2) by auto
  obtain w1 where l: "for_acc backup_s3_bucket ?bs [] ?w2 = (Inl (KeyError ''Contents''), w1)"
      "unlogged w1 = unlogged ?w2"
    using backup_s3_buckets_fault [OF p1 p2, of "[]"] by blast
  have r: "backup_s3 w = (Inl (KeyError ''Contents''), w1)"
    using assms(1) l(1)
    by (simp add: backup_s3_def s3_list_buckets_def dump_s3_buckets_def io_defs)
  have "files w1 = files ?w2" "file_ops w1 = file_ops ?w2"
    using unlogged_fields [OF l(2)] by simp_all
  then show ?thesis using r by (simp add: backup_def io_bind_def)
qed

theorem backup_s3_empty_bucket_fault_witness:
  "s3_client_ok empty_bucket_world
   \<and> map_of (s3 empty_bucket_world) ''scratch'' = Some []
   \<and> fst (backup_s3 empty_bucket_world) = Inl (KeyError ''Contents'')
   \<and> files (snd (backup_s3 empty_bucket_world)) =
       no_files\<lparr>s3_buckets_pickle := Some [''photos'', ''scratch'']\<rparr>
   \<and> file_ops (snd (backup_s3 empty_bucket_world)) = [WriteFile ''s3_buckets.pickle'']
   \<and> fst (backup empty_bucket_world) = Inl (KeyError ''Contents'')"
proof -
  have ok: "s3_client_ok empty_bucket_world"
    by (simp add: empty_bucket_world_def empty_world_def)
  have e: "map_of (s3 empty_bucket_world) ''scratch'' = Some []"
    by (simp add: empty_bucket_world_def empty_world_def)
  show ?thesis
    using backup_s3_empty_bucket_fault [OF ok e] ok e
    by (simp add: empty_bucket_world_def empty_world_def)
qed

text \<open>
  When every bucket holds an object, \<^verbatim>\<open>backup_s3\<close> returns normally and the two
  files hold the bucket names and one record per object, in listing order.
\<close>

lemma distinct_map_of_the:
  assumes "distinct (map fst objs)"
  shows "map (\<lambda>k. f k (the (map_of objs k))) (map fst objs) = map (\<lambda>(k, v). f k v) objs"
  using assms by (induction objs) (auto simp: rev_image_eqI)

lemma backup_s3_buckets_ok:
  assumes "distinct (map fst bs)" and "set bs \<subseteq> set (s3 w)" and "distinct (map fst (s3 w))"
      and "list_all (\<lambda>bucket. snd bucket \<noteq> [] \<and> distinct (map fst (snd bucket))) bs"
  shows "\<exists>w1. for_acc backup_s3_bucket (map fst bs) acc w =
            (Inr (acc @ concat (map bucket_records bs)), w1)
           \<and> unlogged w1 = unlogged w"
  using assms
proof (induction bs arbitrary: w acc)
  case Nil
  show ?case by (simp add: io_ret_def)
next
  case (Cons bucket bs)
  obtain b objs where bucket: "bucket = (b, objs)" by (cases bucket)
  have m: "map_of (s3 w) b = Some objs"
    using Cons.prems(2,3) bucket by simp
  have ne: "objs \<noteq> []" and d: "distinct (map fst objs)"
    using Cons.prems(4) bucket by simp_all
  have recs: "map (\<lambda>k. [(''bucket_name'', PStr b), (''object_key'', PStr k),
                           (''object_body'', PBytes (the (map_of objs k)))]) (map fst objs)
              = bucket_records bucket"
    using distinct_map_of_the [OF d, of "\<lambda>k v. [(''bucket_name'', PStr b), (''object_key'', PStr k),
                           (''object_body'', PBytes v)]"]
    by (simp add: bucket_records_def bucket object_record_def case_prod_beta)
  obtain w1 where s: "backup_s3_bucket acc b w = (Inr (acc @ bucket_records bucket), w1)"
      "unlogged w1 = unlogged w"
    using backup_s3_bucket_nonempty [OF m ne, of acc] recs by auto
  have eq: "s3 w1 = s3 w" using unlogged_fields(1) [OF s(2)] .
  obtain w2 where l: "for_acc backup_s3_bucket (map fst bs) (acc @ bucket_records bucket) w1 =
            (Inr ((acc @ bucket_records bucket) @ concat (map bucket_records bs)), w2)"
      "unlogged w2 = unlogged w1"
    using Cons.IH [of w1 "acc @ bucket_records bucket"] Cons.prems eq by auto
  have "for_acc backup_s3_bucket (map fst (bucket # bs)) acc w =
        for_acc backup_s3_bucket (map fst bs) (acc @ bucket_records bucket) w1"
    using s(1) bucket by (simp add: io_bind_def)
  then show ?case using l s(2) by simp
qed

lemma backup_s3_ok:
  assumes "s3_client_ok w" and "well_formed_s3 (s3 w)" and "list_all (\<lambda>bucket. snd bucket \<noteq> []) (s3 w)"
  shows "fst (backup_s3 w) = Inr False
       \<and> files (snd (backup_s3 w)) =
           (files w)\<lparr>s3_buckets_pickle := Some (map fst (s3 w)),
                     s3_objects_pickle := Some (concat (map bucket_records (s3 w)))\<rparr>
       \<and> s3 (snd (backup_s3 w)) = s3 w"
proof -
  let ?w2 = "w\<lparr>calls := calls w @ [S3ListBuckets],
               files := (files w)\<lparr>s3_buckets_pickle := Some (map fst (s3 w))\<rparr>,
               file_ops := file_ops w @ [WriteFile ''s3_buckets.pickle'']\<rparr>"
  have la: "list_all (\<lambda>bucket. snd bucket \<noteq> [] \<and> distinct (map fst (snd bucket))) (s3 w)"
    using assms(2,3) by (auto simp: well_formed_s3_def list_all_iff)
  obtain w1 where l: "for_acc backup_s3_bucket (map fst (s3 w)) [] ?w2 =
            (Inr ([] @ concat (map bucket_records (s3 w))), w1)" "unlogged w1 = unlogged ?w2"
    using backup_s3_buckets_ok [of "s3 w" ?w2 "[]"] assms(2) la
    by (auto simp: well_formed_s3_def)
  have f: "files w1 = files ?w2" "s3 w1 = s3 ?w2"
    using unlogged_fields [OF l(2)] by simp_all
  show ?thesis
    using assms(1) l(1) f
    by (simp add: backup_s3_def s3_list_buckets_def dump_s3_buckets_def dump_s3_objects_def io_defs)
qed


(* restore *)

subsection \<open>Object storage restore\<close>

text \<open>
  C5. When the persisted bucket list is empty, \<^verbatim>\<open>restore_s3\<close> returns without
  sending a request (so no object is put), leaves the storage as it was, and opens no file
  but the bucket file: the object file is not read, whatever it holds.
\<close>

theorem restore_s3_empty_bucket_list:
  assumes "s3_buckets_pickle (files w) = Some []"
  shows "fst (restore_s3 w) = Inr False
       \<and> s3 (snd (restore_s3 w)) = s3 w
       \<and> calls (snd (restore_s3 w)) = calls w
       \<and> file_ops (snd (restore_s3 w)) =
           file_ops w @ (if s3_client_ok w then [ReadFile ''s3_buckets.pickle''] else [])"
  using assms by (simp add: restore_s3_def load_file_def io_defs)

theorem restore_s3_empty_bucket_list_witness:
  "s3_buckets_pickle (files orphan_object_world) = Some []
   \<and> s3_objects_pickle (files orphan_object_world) \<noteq> Some []
   \<and> fst (restore_s3 orphan_object_world) = Inr False
   \<and> s3 (snd (restore_s3 orphan_object_world)) = []
   \<and> calls (snd (restore_s3 orphan_object_world)) = []
   \<and> file_ops (snd (restore_s3 orphan_object_world)) = [ReadFile ''s3_buckets.pickle'']"
proof -
  have h: "s3_buckets_pickle (files orphan_object_world) = Some []"
    by (simp add: orphan_object_world_def)
  show ?thesis
    using restore_s3_empty_bucket_list [OF h] h
    by (simp add: orphan_object_world_def empty_world_def no_files_def)
qed

lemma update_fresh: "k \<notin> fst ` set al \<Longrightarrow> AList.update k v al = al @ [(k, v)]"
  by (induction al) auto

lemma update_middle:
  "k \<notin> fst ` set xs \<Longrightarrow> AList.update k v (xs @ (k, old) # ys) = xs @ (k, v) # ys"
  by (induction xs) auto

lemma map_of_middle:
  "k \<notin> fst ` set xs \<Longrightarrow> map_of (xs @ (k, v) # ys) k = Some v"
  by (induction xs) auto

lemma restore_s3_buckets_loop:
  assumes "distinct bs" and "set bs \<inter> fst ` set (s3 w) = {}"
  shows "\<exists>w1. for_each restore_s3_bucket bs w = (Inr (), w1)
           \<and> s3 w1 = s3 w @ map (\<lambda>b. (b, [])) bs \<and> files w1 = files w"
  using assms
proof (induction bs arbitrary: w)
  case Nil
  show ?case by (simp add: io_ret_def)
next
  case (Cons b bs)
  let ?w1 = "w\<lparr>stdout := stdout w @ [''Restoring bucket '' @ b],
               calls := calls w @ [S3CreateBucket b], s3 := s3 w @ [(b, [])]\<rparr>"
  have s: "restore_s3_bucket b w = (Inr (), ?w1)"
    using Cons.prems(2) by (auto simp: restore_s3_bucket_def s3_create_bucket_def io_defs)
  have "set bs \<inter> fst ` set (s3 ?w1) = {}" using Cons.prems by auto
  then obtain w2 where l: "for_each restore_s3_bucket bs ?w1 = (Inr (), w2)"
      "s3 w2 = s3 ?w1 @ map (\<lambda>b. (b, [])) bs" "files w2 = files ?w1"
    using Cons.IH [of ?w1] Cons.prems(1) by auto
  have "for_each restore_s3_bucket (b # bs) w = for_each restore_s3_bucket bs ?w1"
    using s by (simp add: io_bind_def)
  then show ?case using l by simp
qed

lemma restore_s3_object_step:
  assumes "s3 w = xs @ (b, os) # ys" and "b \<notin> fst ` set xs" and "fst obj \<notin> fst ` set os"
  shows "\<exists>w1. restore_s3_object (object_record b obj) w = (Inr (), w1)
           \<and> s3 w1 = xs @ (b, os @ [obj]) # ys \<and> files w1 = files w"
proof -
  have m: "map_of (s3 w) b = Some os"
    using map_of_middle [OF assms(2)] assms(1) by simp
  have "AList.update (fst obj) (snd obj) os = os @ [obj]"
    using update_fresh [OF assms(3)] by simp
  then have u: "AList.update b (AList.update (fst obj) (snd obj) os) (s3 w)
                = xs @ (b, os @ [obj]) # ys"
    using update_middle [OF assms(2)] assms(1) by simp
  show ?thesis
    using m u
    by (simp add: restore_s3_object_def object_record_def dict_get_def s3_put_object_def
                  io_defs)
qed

lemma restore_s3_fill_bucket:
  assumes "s3 w = xs @ (b, os) # ys" and "b \<notin> fst ` set xs" and "distinct (map fst (os @ new))"
  shows "\<exists>w1. for_each restore_s3_object (map (object_record b) new) w = (Inr (), w1)
           \<and> s3 w1 = xs @ (b, os @ new) # ys \<and> files w1 = files w"
  using assms
proof (induction new arbitrary: w os)
  case Nil
  then show ?case by (simp add: io_ret_def)
next
  case (Cons obj new)
  have fresh: "fst obj \<notin> fst ` set os" using Cons.prems(3) by auto
  obtain w1 where s: "restore_s3_object (object_record b obj) w = (Inr (), w1)"
      "s3 w1 = xs @ (b, os @ [obj]) # ys" "files w1 = files w"
    using restore_s3_object_step [OF Cons.prems(1,2) fresh] by blast
  have d: "distinct (map fst ((os @ [obj]) @ new))" using Cons.prems(3) by simp
  obtain w2 where l: "for_each restore_s3_object (map (object_record b) new) w1 = (Inr (), w2)"
      "s3 w2 = xs @ (b, (os @ [obj]) @ new) # ys" "files w2 = files w1"
    using Cons.IH [OF s(2) Cons.prems(2) d] by blast
  have "for_each restore_s3_object (map (object_record b) (obj # new)) w =
        for_each restore_s3_object (map (object_record b) new) w1"
    using s(1) by (simp add: io_bind_def)
  then show ?case using l s(3) by simp
qed

lemma restore_s3_fill_all:
  assumes "s3 w = done @ map empty_bucket todo" and "well_formed_s3 (done @ todo)"
  shows "\<exists>w1. for_each restore_s3_object (concat (map bucket_records todo)) w = (Inr (), w1)
           \<and> s3 w1 = done @ todo \<and> files w1 = files w"
  using assms
proof (induction todo arbitrary: w "done")
  case Nil
  then show ?case by (simp add: io_ret_def)
next
  case (Cons bucket todo)
  obtain b objs where bucket: "bucket = (b, objs)" by (cases bucket)
  have st: "s3 w = done @ (b, []) # map empty_bucket todo"
    using Cons.prems(1) bucket by (simp add: empty_bucket_def)
  have nb: "b \<notin> fst ` set done" and d: "distinct (map fst ([] @ objs))"
    using Cons.prems(2) bucket by (auto simp: well_formed_s3_def)
  obtain w1 where s: "for_each restore_s3_object (map (object_record b) objs) w = (Inr (), w1)"
      "s3 w1 = done @ (b, [] @ objs) # map empty_bucket todo" "files w1 = files w"
    using restore_s3_fill_bucket [OF st nb d] by blast
  have st1: "s3 w1 = (done @ [bucket]) @ map empty_bucket todo" using s(2) bucket by simp
  have wf1: "well_formed_s3 ((done @ [bucket]) @ todo)" using Cons.prems(2) by simp
  obtain w2 where l: "for_each restore_s3_object (concat (map bucket_records todo)) w1 = (Inr (), w2)"
      "s3 w2 = (done @ [bucket]) @ todo" "files w2 = files w1"
    using Cons.IH [OF st1 wf1] by blast
  have "for_each restore_s3_object (concat (map bucket_records (bucket # todo))) w =
        for_each restore_s3_object (concat (map bucket_records todo)) w1"
    using s(1) bucket by (simp add: for_each_append bucket_records_def)
  then show ?case using l s(3) by simp
qed

subsection \<open>The storage round trip\<close>

text \<open>
  When bucket names and keys are unique and every bucket holds an object, backup followed
  by restore on an empty target, in the same working directory, reproduces the storage:
  the same buckets with the same keys and bodies.
\<close>

lemma s3_round_trip:
  assumes "s3_client_ok w" and "well_formed_s3 (s3 w)"
      and "list_all (\<lambda>bucket. snd bucket \<noteq> []) (s3 w)"
      and "s3_client_ok t" and "s3 t = []" and "files t = files (snd (backup_s3 w))"
  shows "fst (backup_s3 w) = Inr False \<and> fst (restore_s3 t) = Inr False
       \<and> s3 (snd (restore_s3 t)) = s3 w"
proof -
  note b = backup_s3_ok [OF assms(1-3)]
  have fb: "s3_buckets_pickle (files t) = Some (map fst (s3 w))"
    and fo: "s3_objects_pickle (files t) = Some (concat (map bucket_records (s3 w)))"
    using b assms(6) by simp_all
  show ?thesis
  proof (cases "s3 w = []")
    case True
    then show ?thesis
      using b fb assms(4,5) by (simp add: restore_s3_def load_file_def io_defs)
  next
    case False
    let ?t1 = "t\<lparr>file_ops := file_ops t @ [ReadFile ''s3_buckets.pickle'']\<rparr>"
    have d: "distinct (map fst (s3 w))" using assms(2) by (simp add: well_formed_s3_def)
    obtain t2 where l1: "for_each restore_s3_bucket (map fst (s3 w)) ?t1 = (Inr (), t2)"
        "s3 t2 = s3 ?t1 @ map (\<lambda>b. (b, [])) (map fst (s3 w))" "files t2 = files ?t1"
      using restore_s3_buckets_loop [OF d, of ?t1] assms(5) by auto
    let ?t3 = "t2\<lparr>file_ops := file_ops t2 @ [ReadFile ''s3_objects.pickle'']\<rparr>"
    let ?recs = "concat (map bucket_records (s3 w))"
    let ?t4 = "?t3\<lparr>stdout := stdout ?t3
                 @ [''Restoring '' @ show_nat (length ?recs) @ '' objects'']\<rparr>"
    have st: "s3 ?t4 = [] @ map empty_bucket (s3 w)"
      using l1(2) assms(5) by (simp add: empty_bucket_def comp_def)
    have wf: "well_formed_s3 ([] @ s3 w)" using assms(2) by simp
    obtain t5 where l2: "for_each restore_s3_object ?recs ?t4 = (Inr (), t5)"
        "s3 t5 = [] @ s3 w"
      using restore_s3_fill_all [OF st wf] by blast
    have recs_ne: "?recs \<noteq> []"
      using False assms(3) by (cases "s3 w") (auto simp: bucket_records_def)
    have "restore_s3 t = (Inr False, t5)"
      using assms(4) fb fo False l1(1,3) l2(1) recs_ne
      by (simp add: restore_s3_def load_file_def io_defs)
    then show ?thesis using b l2(2) by simp
  qed
qed

text \<open>The round trip on a bucket with two objects.\<close>

lemma s3_round_trip_example:
  "fst (backup_s3 photo_world) = Inr False
   \<and> fst (restore_s3 (empty_world\<lparr>files := files (snd (backup_s3 photo_world))\<rparr>)) = Inr False
   \<and> s3 (snd (restore_s3 (empty_world\<lparr>files := files (snd (backup_s3 photo_world))\<rparr>))) =
       [(''photos'', [(''cat.png'', ''PNG''), (''dog.jpg'', ''JFIF'')])]"
proof -
  have ok: "s3_client_ok photo_world"
    by (simp add: photo_world_def empty_world_def)
  have wf: "well_formed_s3 (s3 photo_world)"
    by (simp add: photo_world_def empty_world_def well_formed_s3_def)
  have ne: "list_all (\<lambda>bucket. snd bucket \<noteq> []) (s3 photo_world)"
    by (simp add: photo_world_def empty_world_def)
  have t: "s3_client_ok (empty_world\<lparr>files := files (snd (backup_s3 photo_world))\<rparr>)"
      "s3 (empty_world\<lparr>files := files (snd (backup_s3 photo_world))\<rparr>) = []"
      "files (empty_world\<lparr>files := files (snd (backup_s3 photo_world))\<rparr>) =
         files (snd (backup_s3 photo_world))"
    by (simp_all add: empty_world_def)
  show ?thesis
    using s3_round_trip [OF ok wf ne t]
    by (simp add: photo_world_def empty_world_def)
qed

text \<open>
  C1. The storage of \<open>empty_bucket_world\<close> has the bucket \<^verbatim>\<open>photos\<close> with one
  object and the bucket \<^verbatim>\<open>scratch\<close> with none. \<^verbatim>\<open>backup_s3\<close> ends in
  \<^verbatim>\<open>KeyError('Contents')\<close> and leaves no object file. \<^verbatim>\<open>restore_s3\<close>, run on an
  empty target with the files of that backup, recreates both buckets, ends in
  \<^verbatim>\<open>FileNotFoundError\<close> and leaves \<^verbatim>\<open>photos\<close> without its object.
\<close>

theorem s3_round_trip_loses_objects:
  "s3 empty_bucket_world = [(''photos'', [(''cat.png'', ''PNG'')]), (''scratch'', [])]
   \<and> fst (backup_s3 empty_bucket_world) = Inl (KeyError ''Contents'')
   \<and> files (snd (backup_s3 empty_bucket_world)) =
       no_files\<lparr>s3_buckets_pickle := Some [''photos'', ''scratch'']\<rparr>
   \<and> fst (restore_s3 (empty_world\<lparr>files := files (snd (backup_s3 empty_bucket_world))\<rparr>)) =
       Inl (FileNotFoundError ''s3_objects.pickle'')
   \<and> s3 (snd (restore_s3 (empty_world\<lparr>files := files (snd (backup_s3 empty_bucket_world))\<rparr>))) =
       [(''photos'', []), (''scratch'', [])]"
proof (intro conjI)
  show "s3 empty_bucket_world = [(''photos'', [(''cat.png'', ''PNG'')]), (''scratch'', [])]"
    by (simp add: empty_bucket_world_def empty_world_def)
  show "fst (backup_s3 empty_bucket_world) = Inl (KeyError ''Contents'')"
    by code_simp
  show "files (snd (backup_s3 empty_bucket_world)) =
          no_files\<lparr>s3_buckets_pickle := Some [''photos'', ''scratch'']\<rparr>"
    by code_simp
  show "fst (restore_s3 (empty_world\<lparr>files := files (snd (backup_s3 empty_bucket_world))\<rparr>)) =
          Inl (FileNotFoundError ''s3_objects.pickle'')"
    by code_simp
  show "s3 (snd (restore_s3 (empty_world\<lparr>files := files (snd (backup_s3 empty_bucket_world))\<rparr>))) =
          [(''photos'', []), (''scratch'', [])]"
    by code_simp
qed

subsection \<open>Queue backup\<close>

lemma map_fst_update_present:
  "map_of al k = Some v \<Longrightarrow> map fst (AList.update k v' al) = map fst al"
  by (induction al) auto

lemma backup_sqs_message_step:
  assumes "map_of (sqs w) url = Some q" and "visible q = body # rest"
  shows "\<exists>w1. backup_sqs_message url acc w = (Inr (acc @ [message_record url body]), w1)
           \<and> pending w1 url = rest
           \<and> set (unacked w1 url) \<subseteq> set (unacked w url)
           \<and> (\<forall>u. u \<noteq> url \<longrightarrow> map_of (sqs w1) u = map_of (sqs w) u)
           \<and> same_dir w1 w"
  using assms
  by (simp add: backup_sqs_message_def sqs_receive_message_def sqs_delete_message_def io_defs
                update_conv' pending_def unacked_def message_record_def same_dir_def
                map_fst_update_present)

lemma same_dir_refl: "same_dir w w"
  by (simp add: same_dir_def)

lemma same_dir_trans: "same_dir w2 w1 \<Longrightarrow> same_dir w1 w \<Longrightarrow> same_dir w2 w"
  by (simp add: same_dir_def)

lemma backup_sqs_messages_loop:
  assumes "map_of (sqs w) url = Some q" and "n \<le> length (visible q)"
  shows "\<exists>w1. for_range n (backup_sqs_message url) acc w =
              (Inr (acc @ map (message_record url) (take n (visible q))), w1)
           \<and> pending w1 url = drop n (visible q)
           \<and> set (unacked w1 url) \<subseteq> set (unacked w url)
           \<and> (\<forall>u. u \<noteq> url \<longrightarrow> map_of (sqs w1) u = map_of (sqs w) u)
           \<and> same_dir w1 w"
  using assms
proof (induction n arbitrary: w q acc)
  case 0
  then show ?case by (simp add: io_ret_def pending_def same_dir_refl)
next
  case (Suc n)
  from Suc.prems(2) obtain body rest where v: "visible q = body # rest"
    by (cases "visible q") auto
  obtain w1 where s: "backup_sqs_message url acc w = (Inr (acc @ [message_record url body]), w1)"
      "pending w1 url = rest" "set (unacked w1 url) \<subseteq> set (unacked w url)"
      "\<forall>u. u \<noteq> url \<longrightarrow> map_of (sqs w1) u = map_of (sqs w) u" "same_dir w1 w"
    using backup_sqs_message_step [OF Suc.prems(1) v] by blast
  have "url \<in> set (map fst (sqs w))"
    using Suc.prems(1) by (auto dest: map_of_SomeD intro: rev_image_eqI)
  then have "url \<in> set (map fst (sqs w1))" using s(5) by (simp add: same_dir_def)
  then obtain q1 where q1: "map_of (sqs w1) url = Some q1"
    by (cases "map_of (sqs w1) url") (auto simp: map_of_eq_None_iff)
  with s(2) have v1: "visible q1 = rest" by (simp add: pending_def)
  have n: "n \<le> length (visible q1)" using Suc.prems(2) v v1 by simp
  obtain w2 where l: "for_range n (backup_sqs_message url) (acc @ [message_record url body]) w1 =
              (Inr ((acc @ [message_record url body]) @ map (message_record url) (take n (visible q1))), w2)"
      "pending w2 url = drop n (visible q1)" "set (unacked w2 url) \<subseteq> set (unacked w1 url)"
      "\<forall>u. u \<noteq> url \<longrightarrow> map_of (sqs w2) u = map_of (sqs w1) u" "same_dir w2 w1"
    using Suc.IH [OF q1 n] by blast
  have "for_range (Suc n) (backup_sqs_message url) acc w =
        for_range n (backup_sqs_message url) (acc @ [message_record url body]) w1"
    using s(1) by (simp add: io_bind_def)
  then show ?case
    using l s(3,4) same_dir_trans [OF l(5) s(5)] v v1 by auto
qed

lemma backup_sqs_queue_step:
  assumes "map_of (sqs w) url = Some q"
  shows "\<exists>w1. backup_sqs_queue acc url w =
              (Inr (acc @ map (message_record url) (pending w url)), w1)
           \<and> pending w1 url = []
           \<and> set (unacked w1 url) \<subseteq> set (unacked w url)
           \<and> (\<forall>u. u \<noteq> url \<longrightarrow> map_of (sqs w1) u = map_of (sqs w) u)
           \<and> same_dir w1 w"
proof (cases "visible q = []")
  case True
  then show ?thesis
    using assms
    by (simp add: backup_sqs_queue_def sqs_get_queue_attributes_def io_defs pending_def
                  unacked_def same_dir_def)
next
  case False
  let ?n = "length (visible q)"
  let ?w0 = "w\<lparr>stdout := stdout w @ [''Processing queue: '' @ url],
               calls := calls w @ [SqsGetQueueAttributes url],
               stdout := (stdout w @ [''Processing queue: '' @ url])
                         @ [''Expecting '' @ show_nat ?n @ '' messages'']\<rparr>"
  have q0: "map_of (sqs ?w0) url = Some q" using assms by simp
  obtain w1 where l: "for_range ?n (backup_sqs_message url) acc ?w0 =
              (Inr (acc @ map (message_record url) (take ?n (visible q))), w1)"
      "pending w1 url = drop ?n (visible q)" "set (unacked w1 url) \<subseteq> set (unacked ?w0 url)"
      "\<forall>u. u \<noteq> url \<longrightarrow> map_of (sqs w1) u = map_of (sqs ?w0) u" "same_dir w1 ?w0"
    using backup_sqs_messages_loop [OF q0 order_refl] by blast
  have "backup_sqs_queue acc url w = for_range ?n (backup_sqs_message url) acc ?w0"
    using assms False
    by (simp add: backup_sqs_queue_def sqs_get_queue_attributes_def io_defs)
  then show ?thesis
    using l assms by (simp add: pending_def unacked_def same_dir_def)
qed

lemma same_dir_known:
  assumes "same_dir w1 w"
  shows "(map_of (sqs w1) u = None) = (map_of (sqs w) u = None)"
proof -
  have "fst ` set (sqs w1) = fst ` set (sqs w)"
    using assms by (metis same_dir_def set_map)
  then show ?thesis by (simp add: map_of_eq_None_iff)
qed

lemma backup_sqs_queues_loop:
  assumes "\<forall>u\<in>set urls. map_of (sqs w) u \<noteq> None"
  shows "\<exists>r w1. for_acc backup_sqs_queue urls acc w = (Inr r, w1)
           \<and> (\<forall>u. pending w1 u = (if u \<in> set urls then [] else pending w u))
           \<and> (\<forall>u. set (unacked w1 u) \<subseteq> set (unacked w u))
           \<and> same_dir w1 w
           \<and> (distinct urls \<longrightarrow>
                r = acc @ concat (map (\<lambda>u. map (message_record u) (pending w u)) urls))
           \<and> ((\<forall>u\<in>set urls. pending w u = []) \<longrightarrow> r = acc)"
  using assms
proof (induction urls arbitrary: w acc)
  case Nil
  show ?case by (simp add: io_ret_def same_dir_refl)
next
  case (Cons url urls)
  from Cons.prems obtain q where q: "map_of (sqs w) url = Some q" by auto
  let ?acc1 = "acc @ map (message_record url) (pending w url)"
  obtain w1 where s: "backup_sqs_queue acc url w = (Inr ?acc1, w1)"
      "pending w1 url = []" "set (unacked w1 url) \<subseteq> set (unacked w url)"
      "\<forall>u. u \<noteq> url \<longrightarrow> map_of (sqs w1) u = map_of (sqs w) u" "same_dir w1 w"
    using backup_sqs_queue_step [OF q] by blast
  have other: "\<And>u. u \<noteq> url \<Longrightarrow> pending w1 u = pending w u \<and> unacked w1 u = unacked w u"
    using s(4) by (simp add: pending_def unacked_def)
  have known: "\<forall>u\<in>set urls. map_of (sqs w1) u \<noteq> None"
    using Cons.prems same_dir_known [OF s(5)] by simp
  obtain r w2 where l: "for_acc backup_sqs_queue urls ?acc1 w1 = (Inr r, w2)"
      "\<forall>u. pending w2 u = (if u \<in> set urls then [] else pending w1 u)"
      "\<forall>u. set (unacked w2 u) \<subseteq> set (unacked w1 u)"
      "same_dir w2 w1"
      "distinct urls \<longrightarrow>
         r = ?acc1 @ concat (map (\<lambda>u. map (message_record u) (pending w1 u)) urls)"
      "(\<forall>u\<in>set urls. pending w1 u = []) \<longrightarrow> r = ?acc1"
    using Cons.IH [OF known, of ?acc1] by blast
  have run: "for_acc backup_sqs_queue (url # urls) acc w = (Inr r, w2)"
    using s(1) l(1) by (simp add: io_bind_def)
  have p: "\<forall>u. pending w2 u = (if u \<in> set (url # urls) then [] else pending w u)"
    using l(2) s(2) other by auto
  have a: "\<forall>u. set (unacked w2 u) \<subseteq> set (unacked w u)"
  proof
    fix u
    show "set (unacked w2 u) \<subseteq> set (unacked w u)"
      using l(3) [rule_format, of u] s(3) other [of u] by (cases "u = url") auto
  qed
  have d: "distinct (url # urls) \<longrightarrow>
             r = acc @ concat (map (\<lambda>u. map (message_record u) (pending w u)) (url # urls))"
  proof
    assume dist: "distinct (url # urls)"
    have "\<And>u. u \<in> set urls \<Longrightarrow> pending w1 u = pending w u"
    proof -
      fix u assume "u \<in> set urls"
      with dist have "u \<noteq> url" by auto
      then show "pending w1 u = pending w u" using other by simp
    qed
    then have "concat (map (\<lambda>u. map (message_record u) (pending w1 u)) urls)
             = concat (map (\<lambda>u. map (message_record u) (pending w u)) urls)"
      by (intro arg_cong [where f = concat] map_cong) simp_all
    then show "r = acc @ concat (map (\<lambda>u. map (message_record u) (pending w u)) (url # urls))"
      using l(5) dist by simp
  qed
  have e: "(\<forall>u\<in>set (url # urls). pending w u = []) \<longrightarrow> r = acc"
  proof
    assume all: "\<forall>u\<in>set (url # urls). pending w u = []"
    have "\<forall>u\<in>set urls. pending w1 u = []"
    proof
      fix u assume "u \<in> set urls"
      then show "pending w1 u = []"
        using all s(2) other [of u] by (cases "u = url") auto
    qed
    then show "r = acc" using l(6) all by simp
  qed
  show ?case
    using run p a same_dir_trans [OF l(4) s(5)] d e by blast
qed

text \<open>
  C2. When the client can be created and there is at least one queue, \<^verbatim>\<open>backup_sqs\<close>
  returns normally; afterwards no queue URL has a message left to deliver, and no message
  is in flight that was not in flight before (each message received was deleted). The
  queue file lists the queues; when the queue URLs are distinct the message file holds
  every message that was deliverable, queue by queue in order. A second
  \<^verbatim>\<open>backup_sqs\<close> on the resulting world returns normally and writes an empty message
  list.
\<close>

theorem backup_sqs_drains:
  assumes "sqs_client_ok w" and "sqs w \<noteq> []"
  shows "fst (backup_sqs w) = Inr False
       \<and> (\<forall>url. pending (snd (backup_sqs w)) url = [])
       \<and> (\<forall>url. set (unacked (snd (backup_sqs w)) url) \<subseteq> set (unacked w url))
       \<and> map fst (sqs (snd (backup_sqs w))) = map fst (sqs w)
       \<and> sqs_queues_pickle (files (snd (backup_sqs w))) = Some (map fst (sqs w))
       \<and> (distinct (map fst (sqs w)) \<longrightarrow>
            sqs_messages_pickle (files (snd (backup_sqs w))) =
              Some (concat (map (\<lambda>url. map (message_record url) (pending w url))
                                (map fst (sqs w)))))
       \<and> fst (backup_sqs (snd (backup_sqs w))) = Inr False
       \<and> sqs_messages_pickle (files (snd (backup_sqs (snd (backup_sqs w))))) = Some []"
proof -
  have run: "\<exists>r w1 w'. backup_sqs w = (Inr False, w')
           \<and> w' = w1\<lparr>files := (files w1)\<lparr>sqs_messages_pickle := Some r\<rparr>,
                      file_ops := file_ops w1 @ [WriteFile ''sqs_messages.pickle'']\<rparr>
           \<and> (\<forall>u. pending w1 u = [])
           \<and> (\<forall>u. set (unacked w1 u) \<subseteq> set (unacked w u))
           \<and> map fst (sqs w1) = map fst (sqs w)
           \<and> sqs_client_ok w1
           \<and> sqs_queues_pickle (files w1) = Some (map fst (sqs w))
           \<and> (distinct (map fst (sqs w)) \<longrightarrow>
                r = concat (map (\<lambda>url. map (message_record url) (pending w url))
                                (map fst (sqs w))))
           \<and> ((\<forall>u. pending w u = []) \<longrightarrow> r = [])"
    if ok: "sqs_client_ok w" and ne: "sqs w \<noteq> []" for w
  proof -
    let ?urls = "map fst (sqs w)"
    let ?w0 = "w\<lparr>calls := calls w @ [SqsListQueues],
                 files := (files w)\<lparr>sqs_queues_pickle := Some ?urls\<rparr>,
                 file_ops := file_ops w @ [WriteFile ''sqs_queues.pickle'']\<rparr>"
    have known: "\<forall>u\<in>set ?urls. map_of (sqs ?w0) u \<noteq> None"
      by (auto simp: map_of_eq_None_iff)
    obtain r w1 where l: "for_acc backup_sqs_queue ?urls [] ?w0 = (Inr r, w1)"
        "\<forall>u. pending w1 u = (if u \<in> set ?urls then [] else pending ?w0 u)"
        "\<forall>u. set (unacked w1 u) \<subseteq> set (unacked ?w0 u)"
        "same_dir w1 ?w0"
        "distinct ?urls \<longrightarrow>
           r = [] @ concat (map (\<lambda>u. map (message_record u) (pending ?w0 u)) ?urls)"
        "(\<forall>u\<in>set ?urls. pending ?w0 u = []) \<longrightarrow> r = []"
      using backup_sqs_queues_loop [OF known, of "[]"] by blast
    have p0: "\<And>u. pending ?w0 u = pending w u" "\<And>u. unacked ?w0 u = unacked w u"
      by (simp_all add: pending_def unacked_def)
    have unknown: "\<And>u. u \<notin> set ?urls \<Longrightarrow> pending w u = []"
      by (simp add: pending_def map_of_eq_None_iff [THEN iffD2])
    have "backup_sqs w =
            (Inr False, w1\<lparr>files := (files w1)\<lparr>sqs_messages_pickle := Some r\<rparr>,
                         file_ops := file_ops w1 @ [WriteFile ''sqs_messages.pickle'']\<rparr>)"
      using ok ne l(1)
      by (simp add: backup_sqs_def sqs_list_queues_def dump_sqs_queues_def
                    dump_sqs_messages_def io_defs)
    moreover have "\<forall>u. pending w1 u = []" using l(2) p0 unknown by auto
    moreover have "\<forall>u. set (unacked w1 u) \<subseteq> set (unacked w u)" using l(3) p0 by simp
    moreover have "map fst (sqs w1) = map fst (sqs w)" "sqs_client_ok w1"
      "sqs_queues_pickle (files w1) = Some ?urls"
      using l(4) ok by (simp_all add: same_dir_def)
    moreover have "distinct ?urls \<longrightarrow>
                r = concat (map (\<lambda>url. map (message_record url) (pending w url)) ?urls)"
      using l(5) p0 by simp
    moreover have "(\<forall>u. pending w u = []) \<longrightarrow> r = []" using l(6) p0 by simp
    ultimately show ?thesis by blast
  qed
  obtain r w1 w' where first: "backup_sqs w = (Inr False, w')"
      "w' = w1\<lparr>files := (files w1)\<lparr>sqs_messages_pickle := Some r\<rparr>,
                file_ops := file_ops w1 @ [WriteFile ''sqs_messages.pickle'']\<rparr>"
      "\<forall>u. pending w1 u = []" "\<forall>u. set (unacked w1 u) \<subseteq> set (unacked w u)"
      "map fst (sqs w1) = map fst (sqs w)" "sqs_client_ok w1"
      "sqs_queues_pickle (files w1) = Some (map fst (sqs w))"
      "distinct (map fst (sqs w)) \<longrightarrow>
                r = concat (map (\<lambda>url. map (message_record url) (pending w url))
                                (map fst (sqs w)))"
    using run [OF assms] by blast
  have w'_sqs: "sqs w' = sqs w1" "sqs_client_ok w'" using first(2,6) by simp_all
  have pend': "\<forall>u. pending w' u = []" "\<forall>u. unacked w' u = unacked w1 u"
    using first(3) w'_sqs(1) by (simp_all add: pending_def unacked_def)
  have ne': "sqs w' \<noteq> []" using w'_sqs(1) first(5) assms(2) by (metis map_is_Nil_conv)
  obtain r2 w2 w'' where second: "backup_sqs w' = (Inr False, w'')"
      "w'' = w2\<lparr>files := (files w2)\<lparr>sqs_messages_pickle := Some r2\<rparr>,
                file_ops := file_ops w2 @ [WriteFile ''sqs_messages.pickle'']\<rparr>"
      "(\<forall>u. pending w' u = []) \<longrightarrow> r2 = []"
    using run [OF w'_sqs(2) ne'] by blast
  have "r2 = []" using second(3) pend'(1) by simp
  then show ?thesis
    using first second(1,2) pend' w'_sqs by simp
qed

theorem backup_sqs_drains_witness:
  "sqs_client_ok two_queue_world \<and> sqs two_queue_world \<noteq> []
   \<and> distinct (map fst (sqs two_queue_world))
   \<and> fst (backup_sqs two_queue_world) = Inr False
   \<and> pending (snd (backup_sqs two_queue_world)) ''http://localhost:4566/000000000000/jobs'' = []
   \<and> sqs_messages_pickle (files (snd (backup_sqs two_queue_world))) =
       Some [message_record ''http://localhost:4566/000000000000/jobs'' ''first'',
             message_record ''http://localhost:4566/000000000000/jobs'' ''second'',
             message_record ''http://localhost:4566/000000000000/orders.fifo'' ''only'']
   \<and> sqs_messages_pickle (files (snd (backup_sqs (snd (backup_sqs two_queue_world))))) = Some []"
proof -
  have ok: "sqs_client_ok two_queue_world"
    by (simp add: two_queue_world_def empty_world_def)
  have ne: "sqs two_queue_world \<noteq> []"
    by (simp add: two_queue_world_def empty_world_def)
  have d: "distinct (map fst (sqs two_queue_world))"
    by (simp add: two_queue_world_def empty_world_def)
  have p: "concat (map (\<lambda>url. map (message_record url) (pending two_queue_world url))
                       (map fst (sqs two_queue_world))) =
           [message_record ''http://localhost:4566/000000000000/jobs'' ''first'',
            message_record ''http://localhost:4566/000000000000/jobs'' ''second'',
            message_record ''http://localhost:4566/000000000000/orders.fifo'' ''only'']"
    by (simp add: two_queue_world_def empty_world_def pending_def)
  show ?thesis
    using backup_sqs_drains [OF ok ne] ok ne d p by simp
qed

subsection \<open>Queue restore\<close>

lemma split_chr_not_Nil: "split_chr c s \<noteq> []"
  by (induction s) (auto split: list.splits)

lemma split_chr_no_sep: "c \<notin> set s \<Longrightarrow> split_chr c s = [s]"
  by (induction s) auto

lemma split_chr_sep: "c \<in> set s \<Longrightarrow> tl (split_chr c s) \<noteq> []"
  by (induction s) (auto simp: split_chr_not_Nil split: list.splits)

lemma takeWhile_snoc:
  "takeWhile P (ys @ [x]) =
     (if \<forall>y\<in>set ys. P y then ys @ (if P x then [x] else []) else takeWhile P ys)"
  by (induction ys) auto

text \<open>\<^verbatim>\<open>s.split(c)[-1]\<close> is what follows the last separator.\<close>

lemma last_segment_final: "last_segment c s = final_segment c s"
proof (induction s)
  case Nil
  show ?case by (simp add: last_segment_def final_segment_def)
next
  case (Cons x xs)
  show ?case
  proof (cases "x = c")
    case True
    then show ?thesis
      using Cons.IH
      by (auto simp add: last_segment_def final_segment_def split_chr_not_Nil takeWhile_snoc)
  next
    case False
    show ?thesis
    proof (cases "c \<in> set xs")
      case True
      obtain p ps where sp: "split_chr c xs = p # ps" "ps \<noteq> []"
        using split_chr_sep [OF True] by (cases "split_chr c xs") auto
      show ?thesis
        using Cons.IH False True sp
        by (auto simp add: last_segment_def final_segment_def takeWhile_snoc)
    next
      case notin: False
      show ?thesis
        using False notin
        by (auto simp add: last_segment_def final_segment_def takeWhile_snoc split_chr_no_sep)
    qed
  qed
qed

lemma restore_sqs_queue_step:
  "\<exists>w1. restore_sqs_queue q w = (Inr (), w1) \<and> files w1 = files w
        \<and> calls w1 = calls w @ [expected_create_queue q]"
  by (simp add: restore_sqs_queue_def sqs_create_queue_def io_defs Let_def endswith_def
                expected_create_queue_def last_segment_final)

lemma restore_sqs_queues_loop:
  "\<exists>w1. for_each restore_sqs_queue qs w = (Inr (), w1) \<and> files w1 = files w
        \<and> calls w1 = calls w @ map expected_create_queue qs"
proof (induction qs arbitrary: w)
  case Nil
  show ?case by (simp add: io_ret_def)
next
  case (Cons q qs)
  obtain w1 where s: "restore_sqs_queue q w = (Inr (), w1)" "files w1 = files w"
      "calls w1 = calls w @ [expected_create_queue q]"
    using restore_sqs_queue_step by blast
  obtain w2 where l: "for_each restore_sqs_queue qs w1 = (Inr (), w2)" "files w2 = files w1"
      "calls w2 = calls w1 @ map expected_create_queue qs"
    using Cons.IH by blast
  have "for_each restore_sqs_queue (q # qs) w = for_each restore_sqs_queue qs w1"
    using s(1) by (simp add: io_bind_def)
  then show ?case using s l by simp
qed

lemma random_choice_letters:
  "\<exists>c w1. random_choice ascii_letters w = (Inr c, w1) \<and> calls w1 = calls w"
  by (simp add: random_choice_def ascii_letters_def)

lemma gen_rand_str_calls_aux:
  "\<exists>s w1. for_range n (\<lambda>s. io_bind (random_choice ascii_letters) (\<lambda>c. io_ret (s @ [c]))) acc w
            = (Inr s, w1) \<and> calls w1 = calls w"
proof (induction n arbitrary: acc w)
  case 0
  show ?case by (simp add: io_ret_def)
next
  case (Suc n)
  obtain c w1 where s: "random_choice ascii_letters w = (Inr c, w1)" "calls w1 = calls w"
    using random_choice_letters by blast
  obtain r w2 where l:
      "for_range n (\<lambda>s. io_bind (random_choice ascii_letters) (\<lambda>c. io_ret (s @ [c])))
         (acc @ [c]) w1 = (Inr r, w2)" "calls w2 = calls w1"
    using Suc.IH by blast
  show ?case using s l by (simp add: io_bind_def io_ret_def)
qed

lemma gen_rand_str_calls:
  "\<exists>s w1. gen_rand_str n w = (Inr s, w1) \<and> calls w1 = calls w"
  unfolding gen_rand_str_def by (rule gen_rand_str_calls_aux)

lemma sqs_send_message_calls:
  "\<exists>rest. calls (snd (sqs_send_message u b ids w)) = calls w @ rest
         \<and> list_all is_send_message rest"
  by (cases u; cases b)
     (auto simp: sqs_send_message_def io_defs split: option.splits)

lemma restore_sqs_message_calls:
  "\<exists>rest. calls (snd (restore_sqs_message m w)) = calls w @ rest
         \<and> list_all is_send_message rest"
proof -
  obtain g w1 where g: "gen_rand_str 3 w = (Inr g, w1)" "calls w1 = calls w"
    using gen_rand_str_calls by blast
  obtain d w2 where d: "gen_rand_str 3 w1 = (Inr d, w2)" "calls w2 = calls w1"
    using gen_rand_str_calls by blast
  show ?thesis
    using g d sqs_send_message_calls [of _ _ _ w] sqs_send_message_calls [of _ _ _ w2]
    by (auto simp: restore_sqs_message_def io_bind_def lift_def dict_get_def
             split: option.splits sum.splits)
qed

lemma restore_sqs_messages_calls:
  "\<exists>rest. calls (snd (for_each restore_sqs_message ms w)) = calls w @ rest
         \<and> list_all is_send_message rest"
proof (induction ms arbitrary: w)
  case Nil
  show ?case by (simp add: io_ret_def)
next
  case (Cons m ms)
  obtain r w1 where s: "restore_sqs_message m w = (r, w1)"
    by (cases "restore_sqs_message m w")
  obtain rest1 where r1: "calls w1 = calls w @ rest1" "list_all is_send_message rest1"
    using restore_sqs_message_calls [of m w] s by auto
  show ?case
  proof (cases r)
    case (Inl e)
    then show ?thesis using s r1 by (auto simp: io_bind_def)
  next
    case (Inr u)
    obtain rest2 where r2:
        "calls (snd (for_each restore_sqs_message ms w1)) = calls w1 @ rest2"
        "list_all is_send_message rest2"
      using Cons.IH by blast
    have "for_each restore_sqs_message (m # ms) w = for_each restore_sqs_message ms w1"
      using s Inr by (simp add: io_bind_def)
    then show ?thesis using r1 r2 by auto
  qed
qed

text \<open>
  C7. When the client can be created and the queue file holds \<open>queue_list\<close>, the requests
  that \<^verbatim>\<open>restore_sqs\<close> sends are, in order: for each persisted URL one
  \<^verbatim>\<open>create_queue\<close> whose name is the final path segment of the URL, with
  \<^verbatim>\<open>FifoQueue\<close> and \<^verbatim>\<open>ContentBasedDeduplication\<close> set to \<^verbatim>\<open>'true'\<close> when the
  name ends in \<^verbatim>\<open>.fifo\<close> and without attributes otherwise; then only
  \<^verbatim>\<open>send_message\<close> requests.
\<close>

theorem restore_sqs_creates_queues:
  assumes "sqs_client_ok w" and "sqs_queues_pickle (files w) = Some queue_list"
  shows "\<exists>rest. calls (snd (restore_sqs w)) =
                  calls w @ map expected_create_queue queue_list @ rest
               \<and> list_all is_send_message rest"
proof -
  let ?w0 = "w\<lparr>stdout := stdout w @ [''Restoring SQS''],
               file_ops := file_ops w @ [ReadFile ''sqs_queues.pickle'']\<rparr>"
  obtain w1 where l: "for_each restore_sqs_queue queue_list ?w0 = (Inr (), w1)"
      "files w1 = files ?w0" "calls w1 = calls ?w0 @ map expected_create_queue queue_list"
    using restore_sqs_queues_loop by blast
  have q: "(if length queue_list > 0 then for_each restore_sqs_queue queue_list
            else io_ret ()) ?w0 = (Inr (), w1)"
    using l(1) by (cases queue_list) (simp_all add: io_ret_def)
  show ?thesis
  proof (cases "sqs_messages_pickle (files w)")
    case None
    then show ?thesis
      using assms q l(2,3)
      by (simp add: restore_sqs_def load_file_def io_defs del: length_greater_0_conv)
  next
    case (Some message_list)
    let ?w2 = "w1\<lparr>file_ops := file_ops w1 @ [ReadFile ''sqs_messages.pickle'']\<rparr>"
    let ?w3 = "?w2\<lparr>stdout := stdout ?w2
                 @ [''Restoring '' @ show_nat (length message_list) @ '' messages'']\<rparr>"
    obtain rest where r:
        "calls (snd (for_each restore_sqs_message message_list ?w3)) = calls ?w3 @ rest"
        "list_all is_send_message rest"
      using restore_sqs_messages_calls by blast
    show ?thesis
    proof (cases "message_list = []")
      case True
      then show ?thesis
        using assms q l(2,3) Some
        by (simp add: restore_sqs_def load_file_def io_defs del: length_greater_0_conv)
    next
      case False
      obtain x w4 where m: "for_each restore_sqs_message message_list ?w3 = (x, w4)"
        by (cases "for_each restore_sqs_message message_list ?w3")
      have "calls (snd (restore_sqs w)) = calls w4"
        using assms q l(2) Some False m
        by (cases x)
           (simp_all add: restore_sqs_def load_file_def io_defs del: length_greater_0_conv)
      then show ?thesis using r m l(3) by auto
    qed
  qed
qed

theorem restore_sqs_creates_queues_witness:
  "sqs_client_ok queue_snapshot_world
   \<and> sqs_queues_pickle (files queue_snapshot_world) =
       Some [''http://localhost:4566/000000000000/jobs'',
             ''http://localhost:4566/000000000000/orders.fifo'']
   \<and> (\<exists>rest. calls (snd (restore_sqs queue_snapshot_world)) =
          [SqsCreateQueue ''jobs'' None,
           SqsCreateQueue ''orders.fifo''
             (Some [(''FifoQueue'', ''true''), (''ContentBasedDeduplication'', ''true'')])]
          @ rest
        \<and> list_all is_send_message rest)"
proof -
  have ok: "sqs_client_ok queue_snapshot_world"
    by (simp add: queue_snapshot_world_def empty_world_def)
  have qs: "sqs_queues_pickle (files queue_snapshot_world) =
              Some [''http://localhost:4566/000000000000/jobs'',
                    ''http://localhost:4566/000000000000/orders.fifo'']"
    by (simp add: queue_snapshot_world_def)
  have c0: "calls queue_snapshot_world = []"
    by (simp add: queue_snapshot_world_def empty_world_def)
  have e1: "expected_create_queue ''http://localhost:4566/000000000000/jobs'' =
              SqsCreateQueue ''jobs'' None"
    by code_simp
  have e2: "expected_create_queue ''http://localhost:4566/000000000000/orders.fifo'' =
              SqsCreateQueue ''orders.fifo''
                (Some [(''FifoQueue'', ''true''), (''ContentBasedDeduplication'', ''true'')])"
    by code_simp
  show ?thesis
    using restore_sqs_creates_queues [OF ok qs] ok qs c0 e1 e2 by simp
qed

subsection \<open>Topic backup\<close>

text \<open>
  When \<^verbatim>\<open>backup_sns\<close> has a client, finds a topic and returns normally, the topic
  file lists the topics and the subscription file holds, in listing order, the record
  built for each subscription entry of each topic.
\<close>

lemma backup_sns_subscriptions_loop:
  assumes "for_acc (backup_sns_subscription t) subs acc w = (Inr r, w1)"
  shows "w1 = w \<and> (\<exists>new. r = acc @ new \<and> list_all2 record_of new (map (Pair t) subs))"
  using assms
proof (induction subs arbitrary: acc)
  case Nil
  then show ?case by (simp add: io_ret_def)
next
  case (Cons s subs)
  show ?case
  proof (cases "subscription_record t s")
    case (Inl e)
    then have "backup_sns_subscription t acc s w = (Inl e, w)"
      by (simp add: backup_sns_subscription_def io_defs)
    then show ?thesis
      using Cons.prems by (simp add: io_bind_def)
  next
    case (Inr x)
    then have "backup_sns_subscription t acc s w = (Inr (acc @ [x]), w)"
      by (simp add: backup_sns_subscription_def io_defs)
    then have "for_acc (backup_sns_subscription t) subs (acc @ [x]) w = (Inr r, w1)"
      using Cons.prems by (simp add: io_bind_def)
    from Cons.IH [OF this] obtain new where
      n: "w1 = w" "r = (acc @ [x]) @ new" "list_all2 record_of new (map (Pair t) subs)"
      by blast
    have "list_all2 record_of (x # new) (map (Pair t) (s # subs))"
      using n(3) Inr by (simp add: record_of_def)
    then show ?thesis using n(1,2) by (intro conjI exI [of _ "x # new"]) simp_all
  qed
qed

lemma backup_sns_topics_loop:
  assumes "for_acc backup_sns_topic ts acc w = (Inr r, w1)"
  shows "unlogged w1 = unlogged w
       \<and> (\<exists>new. r = acc @ new
            \<and> list_all2 record_of new
                (concat (map (\<lambda>topic. map (Pair topic) (topic_subscriptions w topic)) ts)))"
  using assms
proof (induction ts arbitrary: acc w)
  case Nil
  then show ?case by (simp add: io_ret_def)
next
  case (Cons t ts)
  let ?w0 = "w\<lparr>calls := calls w @ [SnsListSubscriptionsByTopic t]\<rparr>"
  show ?case
  proof (cases "map_of (sns w) t")
    case None
    then show ?thesis
      using Cons.prems
      by (simp add: backup_sns_topic_def sns_list_subscriptions_by_topic_def io_defs)
  next
    case (Some subs)
    then have step: "backup_sns_topic acc t w = for_acc (backup_sns_subscription t) subs acc ?w0"
      by (simp add: backup_sns_topic_def sns_list_subscriptions_by_topic_def io_defs)
    show ?thesis
    proof (cases "for_acc (backup_sns_subscription t) subs acc ?w0")
      case (Pair res w2)
      show ?thesis
      proof (cases res)
        case (Inl e)
        then show ?thesis using Cons.prems step Pair by (simp add: io_bind_def)
      next
        case (Inr r1)
        from backup_sns_subscriptions_loop [of t subs acc ?w0 r1 w2] Pair Inr
        obtain new1 where n1: "w2 = ?w0" "r1 = acc @ new1"
            "list_all2 record_of new1 (map (Pair t) subs)"
          by auto
        have "for_acc backup_sns_topic ts r1 ?w0 = (Inr r, w1)"
          using Cons.prems step Pair Inr n1(1) by (simp add: io_bind_def)
        from Cons.IH [OF this] obtain new2 where n2: "unlogged w1 = unlogged ?w0"
            "r = r1 @ new2"
            "list_all2 record_of new2
               (concat (map (\<lambda>topic. map (Pair topic) (topic_subscriptions ?w0 topic)) ts))"
          by blast
        have same: "\<And>topic. topic_subscriptions ?w0 topic = topic_subscriptions w topic"
          by (simp add: topic_subscriptions_def)
        have "list_all2 record_of (new1 @ new2)
                (map (Pair t) subs
                 @ concat (map (\<lambda>topic. map (Pair topic) (topic_subscriptions w topic)) ts))"
          using n1(3) n2(3) same by (simp add: list_all2_appendI)
        then show ?thesis
          using n1(2) n2(1,2) Some
          by (intro conjI exI [of _ "new1 @ new2"]) (simp_all add: topic_subscriptions_def)
      qed
    qed
  qed
qed

lemma backup_sns_records:
  assumes "sns_client_ok w" and "sns w \<noteq> []" and "backup_sns w = (Inr b, w1)"
  shows "sns_topics_pickle (files w1) = Some (map fst (sns w))
       \<and> (\<exists>subs. sns_subs_pickle (files w1) = Some subs
            \<and> list_all2 record_of subs (listed_subscriptions w))"
proof -
  let ?w0 = "w\<lparr>calls := calls w @ [SnsListTopics],
               files := (files w)\<lparr>sns_topics_pickle := Some (map fst (sns w))\<rparr>,
               file_ops := file_ops w @ [WriteFile ''sns_topics.pickle'']\<rparr>"
  obtain res w2 where l: "for_acc backup_sns_topic (map fst (sns w)) [] ?w0 = (res, w2)"
    by (cases "for_acc backup_sns_topic (map fst (sns w)) [] ?w0")
  show ?thesis
  proof (cases res)
    case (Inl e)
    then show ?thesis
      using assms l
      by (simp add: backup_sns_def sns_list_topics_def dump_sns_topics_def io_defs)
  next
    case (Inr r)
    from backup_sns_topics_loop [of "map fst (sns w)" "[]" ?w0 r w2] l Inr
    obtain new where n: "unlogged w2 = unlogged ?w0" "r = [] @ new"
        "list_all2 record_of new
           (concat (map (\<lambda>topic. map (Pair topic) (topic_subscriptions ?w0 topic))
                        (map fst (sns w))))"
      by auto
    have same: "\<And>topic. topic_subscriptions ?w0 topic = topic_subscriptions w topic"
      by (simp add: topic_subscriptions_def)
    have f: "files w2 = files ?w0" using unlogged_fields(4) [OF n(1)] .
    have "w1 = w2\<lparr>files := (files w2)\<lparr>sns_subs_pickle := Some r\<rparr>,
                  file_ops := file_ops w2 @ [WriteFile ''sns_subs.pickle'']\<rparr>"
      using assms l Inr
      by (simp add: backup_sns_def sns_list_topics_def dump_sns_topics_def dump_sns_subs_def
                    io_defs)
    then show ?thesis
      using n(2,3) f same by (simp add: listed_subscriptions_def)
  qed
qed

text \<open>
  A record built for an entry is the record that the specification describes, and a record
  is built for every entry of the shapes listed in \<open>recordable\<close>.
\<close>

lemmas record_defs = subscription_record_def and_then_def dict_get_def dlq_test_def
  dict_has_def Let_def

lemma record_of_dlq_recorded:
  assumes "record_of this_sub entry"
  shows "dlq_recorded this_sub entry"
proof -
  obtain t s where e: "entry = (t, s)" by (cases entry)
  have r: "subscription_record t s = Inr this_sub"
    using assms e by (simp add: record_of_def)
  then obtain a p en where f: "map_of s ''SubscriptionArn'' = Some a"
      "map_of s ''Protocol'' = Some p" "map_of s ''Endpoint'' = Some en"
    by (auto simp: subscription_record_def and_then_def dict_get_def
             split: sum.splits option.splits)
  have pl: "entry_plain entry = plain_record t a p en"
    using e f by (simp add: entry_plain_def entry_field_def)
  show ?thesis
  proof (cases "map_of s ''RawMessageDelivery''")
    case None
    then show ?thesis
      using r f e pl
      by (simp add: dlq_recorded_def dlq_shape_def record_defs plain_record_def)
  next
    case (Some raw)
    show ?thesis
    proof (cases raw)
      case (PStr x)
      then show ?thesis
        using r f e pl Some
        by (cases "sublist ''RedrivePolicy'' x")
           (simp_all add: dlq_recorded_def dlq_shape_def record_defs plain_record_def)
    next
      case (PBytes x)
      then show ?thesis
        using r f e pl Some
        by (simp add: dlq_recorded_def dlq_shape_def record_defs plain_record_def)
    next
      case (PDict d)
      show ?thesis
      proof (cases "map_of d ''RedrivePolicy''")
        case None
        then show ?thesis
          using r f e pl Some PDict
          by (simp add: dlq_recorded_def dlq_shape_def record_defs plain_record_def)
      next
        case policy: (Some pol)
        show ?thesis
        proof (cases pol)
          case (PDict pd)
          then show ?thesis
            using r f e pl Some \<open>raw = PDict d\<close> policy
            by (cases "map_of pd ''deadLetterTargetArn''")
               (simp_all add: dlq_recorded_def dlq_shape_def dlq_arn_def record_defs
                         plain_record_def dict_set_def)
        next
          case (PStr x)
          then show ?thesis
            using r f e Some \<open>raw = PDict d\<close> policy
            by (simp add: record_defs)
        next
          case (PBytes x)
          then show ?thesis
            using r f e Some \<open>raw = PDict d\<close> policy
            by (simp add: record_defs)
        qed
      qed
    qed
  qed
qed

lemma recordable_record:
  assumes "recordable s"
  shows "\<exists>this_sub. subscription_record t s = Inr this_sub"
proof -
  obtain a p en where f: "map_of s ''SubscriptionArn'' = Some a"
      "map_of s ''Protocol'' = Some p" "map_of s ''Endpoint'' = Some en"
    using assms by (auto simp: recordable_def dict_has_def split: option.splits)
  show ?thesis
  proof (cases "map_of s ''RawMessageDelivery''")
    case None
    then show ?thesis
      using f
      by (simp add: record_defs)
  next
    case (Some raw)
    show ?thesis
    proof (cases raw)
      case (PStr x)
      then show ?thesis
        using f Some assms
        by (simp add: recordable_def record_defs)
    next
      case (PBytes x)
      then show ?thesis
        using Some assms by (simp add: recordable_def)
    next
      case (PDict d)
      show ?thesis
      proof (cases "map_of d ''RedrivePolicy''")
        case None
        then show ?thesis
          using f Some PDict
          by (simp add: record_defs)
      next
        case policy: (Some pol)
        then have "dlq_arn s \<noteq> None"
          using assms Some PDict by (simp add: recordable_def dict_has_def)
        then obtain pd arn where "pol = PDict pd" "map_of pd ''deadLetterTargetArn'' = Some arn"
          using Some PDict policy
          by (cases pol) (auto simp: dlq_arn_def)
        then show ?thesis
          using f Some PDict policy
          by (simp add: record_defs)
      qed
    qed
  qed
qed

lemma backup_sns_subscriptions_ok:
  assumes "list_all recordable subs"
  shows "\<exists>r. for_acc (backup_sns_subscription t) subs acc w = (Inr r, w)"
  using assms
proof (induction subs arbitrary: acc)
  case Nil
  show ?case by (simp add: io_ret_def)
next
  case (Cons s subs)
  from Cons.prems have "recordable s" by simp
  then obtain x where x: "subscription_record t s = Inr x"
    using recordable_record by blast
  then have step: "backup_sns_subscription t acc s w = (Inr (acc @ [x]), w)"
    by (simp add: backup_sns_subscription_def io_defs)
  from Cons.prems have "list_all recordable subs" by simp
  from Cons.IH [OF this, of "acc @ [x]"] obtain r where
    "for_acc (backup_sns_subscription t) subs (acc @ [x]) w = (Inr r, w)" by blast
  then show ?case using step by (simp add: io_bind_def)
qed

lemma backup_sns_topics_ok:
  assumes "\<forall>t\<in>set ts. map_of (sns w) t \<noteq> None \<and> list_all recordable (topic_subscriptions w t)"
  shows "\<exists>r w1. for_acc backup_sns_topic ts acc w = (Inr r, w1) \<and> unlogged w1 = unlogged w"
  using assms
proof (induction ts arbitrary: acc w)
  case Nil
  show ?case by (simp add: io_ret_def)
next
  case (Cons t ts)
  let ?w0 = "w\<lparr>calls := calls w @ [SnsListSubscriptionsByTopic t]\<rparr>"
  from Cons.prems obtain subs where subs: "map_of (sns w) t = Some subs" by auto
  then have ok: "list_all recordable subs"
    using Cons.prems by (simp add: topic_subscriptions_def)
  have step: "backup_sns_topic acc t w = for_acc (backup_sns_subscription t) subs acc ?w0"
    using subs by (simp add: backup_sns_topic_def sns_list_subscriptions_by_topic_def io_defs)
  obtain r1 where r1: "for_acc (backup_sns_subscription t) subs acc ?w0 = (Inr r1, ?w0)"
    using backup_sns_subscriptions_ok [OF ok] by blast
  have same: "\<And>topic. topic_subscriptions ?w0 topic = topic_subscriptions w topic"
    by (simp add: topic_subscriptions_def)
  have prem: "\<forall>t\<in>set ts. map_of (sns ?w0) t \<noteq> None
                \<and> list_all recordable (topic_subscriptions ?w0 t)"
    using Cons.prems same by simp
  from Cons.IH [OF prem, of r1] obtain r w1 where
    l: "for_acc backup_sns_topic ts r1 ?w0 = (Inr r, w1)" "unlogged w1 = unlogged ?w0"
    by blast
  have "for_acc backup_sns_topic (t # ts) acc w = (Inr r, w1)"
    using step r1 l(1) by (simp add: io_bind_def)
  then show ?case using l(2) by simp
qed

lemma backup_sns_ok:
  assumes "sns_client_ok w" and "sns w \<noteq> []"
      and "list_all (\<lambda>entry. recordable (snd entry)) (listed_subscriptions w)"
  shows "fst (backup_sns w) = Inr False"
proof -
  let ?w0 = "w\<lparr>calls := calls w @ [SnsListTopics],
               files := (files w)\<lparr>sns_topics_pickle := Some (map fst (sns w))\<rparr>,
               file_ops := file_ops w @ [WriteFile ''sns_topics.pickle'']\<rparr>"
  have same: "\<And>topic. topic_subscriptions ?w0 topic = topic_subscriptions w topic"
    by (simp add: topic_subscriptions_def)
  have "\<forall>t\<in>set (map fst (sns w)). list_all recordable (topic_subscriptions w t)"
    using assms(3) by (auto simp: listed_subscriptions_def list_all_iff)
  moreover have "\<forall>t\<in>set (map fst (sns w)). map_of (sns w) t \<noteq> None"
    by (auto simp: map_of_eq_None_iff)
  ultimately have prem: "\<forall>t\<in>set (map fst (sns w)). map_of (sns ?w0) t \<noteq> None
                \<and> list_all recordable (topic_subscriptions ?w0 t)"
    using same by simp
  obtain r w1 where l: "for_acc backup_sns_topic (map fst (sns w)) [] ?w0 = (Inr r, w1)"
    using backup_sns_topics_ok [OF prem, of "[]"] by blast
  show ?thesis
    using assms(1,2) l
    by (simp add: backup_sns_def sns_list_topics_def dump_sns_topics_def dump_sns_subs_def
                  io_defs)
qed

lemma list_all2_weaken:
  assumes "list_all2 P xs ys" and "\<And>x y. P x y \<Longrightarrow> Q x y"
  shows "list_all2 Q xs ys"
  using assms by (induction rule: list_all2_induct) simp_all

text \<open>
  C6, as amended. With a client and at least one topic: whenever \<^verbatim>\<open>backup_sns\<close>
  returns normally, the subscription file it wrote holds one record per listed
  subscription, in listing order, and the record of an entry has \<^verbatim>\<open>DLQARN\<close> exactly
  when the entry has a \<^verbatim>\<open>RawMessageDelivery\<close> dictionary with a
  \<^verbatim>\<open>RedrivePolicy\<close> key: the record is then the plain four-field record followed by
  \<^verbatim>\<open>DLQARN\<close> with the \<^verbatim>\<open>deadLetterTargetArn\<close> of that policy, and it is the
  plain four-field record for every other entry. \<^verbatim>\<open>backup_sns\<close> does return normally
  when every listed entry has \<^verbatim>\<open>SubscriptionArn\<close>, \<^verbatim>\<open>Protocol\<close> and
  \<^verbatim>\<open>Endpoint\<close> and its \<^verbatim>\<open>RawMessageDelivery\<close> is absent, does not contain
  \<^verbatim>\<open>RedrivePolicy\<close>, or is a dictionary whose \<^verbatim>\<open>RedrivePolicy\<close> is a
  dictionary with \<^verbatim>\<open>deadLetterTargetArn\<close>.
\<close>

theorem backup_sns_dlq:
  assumes "sns_client_ok w" and "sns w \<noteq> []"
  shows "(\<forall>b w1. backup_sns w = (Inr b, w1) \<longrightarrow>
            (\<exists>subs. sns_subs_pickle (files w1) = Some subs
                  \<and> list_all2 dlq_recorded subs (listed_subscriptions w)))
       \<and> (list_all (\<lambda>entry. recordable (snd entry)) (listed_subscriptions w) \<longrightarrow>
            fst (backup_sns w) = Inr False)"
proof (intro conjI allI impI)
  fix b w1
  assume run: "backup_sns w = (Inr b, w1)"
  obtain subs where s: "sns_subs_pickle (files w1) = Some subs"
      "list_all2 record_of subs (listed_subscriptions w)"
    using backup_sns_records [OF assms run] by blast
  have "list_all2 dlq_recorded subs (listed_subscriptions w)"
    using s(2) record_of_dlq_recorded by (rule list_all2_weaken)
  then show "\<exists>subs. sns_subs_pickle (files w1) = Some subs
                  \<and> list_all2 dlq_recorded subs (listed_subscriptions w)"
    using s(1) by blast
next
  assume "list_all (\<lambda>entry. recordable (snd entry)) (listed_subscriptions w)"
  then show "fst (backup_sns w) = Inr False"
    by (rule backup_sns_ok [OF assms])
qed

theorem backup_sns_dlq_witness:
  "sns_client_ok dlq_world \<and> sns dlq_world \<noteq> []
   \<and> list_all (\<lambda>entry. recordable (snd entry)) (listed_subscriptions dlq_world)
   \<and> fst (backup_sns dlq_world) = Inr False
   \<and> (\<exists>subs. sns_subs_pickle (files (snd (backup_sns dlq_world))) = Some subs
            \<and> list_all2 dlq_recorded subs (listed_subscriptions dlq_world))
   \<and> sns_subs_pickle (files (snd (backup_sns dlq_world))) =
       Some [plain_record ''arn:aws:sns:us-east-1:000000000000:news''
               (PStr ''arn:aws:sns:us-east-1:000000000000:news:1'') (PStr ''email'')
               (PStr ''me@example.com''),
             plain_record ''arn:aws:sns:us-east-1:000000000000:news''
               (PStr ''arn:aws:sns:us-east-1:000000000000:news:2'') (PStr ''sqs'')
               (PStr ''arn:aws:sqs:us-east-1:000000000000:inbox'')
             @ [(''DLQARN'', PStr ''arn:aws:sqs:us-east-1:000000000000:dead'')]]"
proof -
  have ok: "sns_client_ok dlq_world"
    by (simp add: dlq_world_def empty_world_def)
  have ne: "sns dlq_world \<noteq> []"
    by (simp add: dlq_world_def empty_world_def)
  have all: "list_all (\<lambda>entry. recordable (snd entry)) (listed_subscriptions dlq_world)"
    by code_simp
  note t = backup_sns_dlq [OF ok ne]
  have fin: "fst (backup_sns dlq_world) = Inr False"
    using t [THEN conjunct2] all by (rule mp)
  then have run: "backup_sns dlq_world = (Inr False, snd (backup_sns dlq_world))"
    by (simp add: prod_eq_iff)
  have recs: "\<exists>subs. sns_subs_pickle (files (snd (backup_sns dlq_world))) = Some subs
            \<and> list_all2 dlq_recorded subs (listed_subscriptions dlq_world)"
    using t [THEN conjunct1, rule_format, OF run] .
  have written: "sns_subs_pickle (files (snd (backup_sns dlq_world))) =
       Some [plain_record ''arn:aws:sns:us-east-1:000000000000:news''
               (PStr ''arn:aws:sns:us-east-1:000000000000:news:1'') (PStr ''email'')
               (PStr ''me@example.com''),
             plain_record ''arn:aws:sns:us-east-1:000000000000:news''
               (PStr ''arn:aws:sns:us-east-1:000000000000:news:2'') (PStr ''sqs'')
               (PStr ''arn:aws:sqs:us-east-1:000000000000:inbox'')
             @ [(''DLQARN'', PStr ''arn:aws:sqs:us-east-1:000000000000:dead'')]]"
    by code_simp
  show ?thesis
    by (intro conjI ok ne all fin recs written)
qed

text \<open>
  C6 as first stated fails: the only subscription of \<open>string_policy_world\<close> has a
  \<^verbatim>\<open>RawMessageDelivery\<close> dictionary with a \<^verbatim>\<open>RedrivePolicy\<close> key, yet no
  \<^verbatim>\<open>DLQARN\<close> is recorded for it and it is not persisted without one either:
  \<^verbatim>\<open>backup_sns\<close> ends in \<^verbatim>\<open>TypeError\<close> at line 185 and writes no subscription
  file.
\<close>

theorem backup_sns_dlq_counterexample:
  "listed_subscriptions string_policy_world =
     [(''arn:aws:sns:us-east-1:000000000000:news'', string_policy_subscription)]
   \<and> dlq_shape string_policy_subscription
   \<and> fst (backup_sns string_policy_world) = Inl TypeError
   \<and> sns_subs_pickle (files (snd (backup_sns string_policy_world))) = None"
proof (intro conjI)
  show "listed_subscriptions string_policy_world =
     [(''arn:aws:sns:us-east-1:000000000000:news'', string_policy_subscription)]"
    by code_simp
  show "dlq_shape string_policy_subscription"
    by code_simp
  show "fst (backup_sns string_policy_world) = Inl TypeError"
    by code_simp
  show "sns_subs_pickle (files (snd (backup_sns string_policy_world))) = None"
    by code_simp
qed

subsection \<open>Topic restore\<close>

lemma restore_sns_topic_step:
  "\<exists>w1. restore_sns_topic t w = (Inr (), w1) \<and> files w1 = files w
        \<and> file_ops w1 = file_ops w
        \<and> calls w1 = calls w @ [SnsCreateTopic (last_segment CHR '':'' t)]"
  by (simp add: restore_sns_topic_def sns_create_topic_def io_defs Let_def)

lemma restore_sns_topics_loop:
  "fst (for_each restore_sns_topic ts w) = Inr ()
   \<and> files (snd (for_each restore_sns_topic ts w)) = files w
   \<and> file_ops (snd (for_each restore_sns_topic ts w)) = file_ops w
   \<and> calls (snd (for_each restore_sns_topic ts w)) =
       calls w @ map (\<lambda>t. SnsCreateTopic (last_segment CHR '':'' t)) ts"
proof (induction ts arbitrary: w)
  case Nil
  show ?case by (simp add: io_ret_def)
next
  case (Cons t ts)
  obtain w1 where s: "restore_sns_topic t w = (Inr (), w1)" "files w1 = files w"
      "file_ops w1 = file_ops w"
      "calls w1 = calls w @ [SnsCreateTopic (last_segment CHR '':'' t)]"
    using restore_sns_topic_step by blast
  have "for_each restore_sns_topic (t # ts) w = for_each restore_sns_topic ts w1"
    using s(1) by (simp add: io_bind_def)
  then show ?case
    using Cons.IH [of w1] s(2-4) by simp
qed

text \<open>
  C3. When the client can be created and the subscription file holds at least one record,
  \<^verbatim>\<open>restore_sns\<close> faults: with \<^verbatim>\<open>AttributeError\<close> for \<^verbatim>\<open>has_key\<close> at the first
  record when the topic file exists (after one \<^verbatim>\<open>create_topic\<close> request per persisted
  topic), and with \<^verbatim>\<open>FileNotFoundError\<close> before that when it does not. No
  \<^verbatim>\<open>subscribe\<close> request is sent in either case.
\<close>

theorem restore_sns_has_key_fault:
  assumes "sns_client_ok w"
      and "sns_subs_pickle (files w) = Some (subscription # rest)"
  shows "fst (restore_sns w) =
           Inl (case sns_topics_pickle (files w) of
                  None \<Rightarrow> FileNotFoundError ''sns_topics.pickle''
                | Some topic_list \<Rightarrow> AttributeError ''has_key'')
       \<and> calls (snd (restore_sns w)) =
           calls w @ map (\<lambda>t. SnsCreateTopic (last_segment CHR '':'' t))
                         (case sns_topics_pickle (files w) of None \<Rightarrow> []
                          | Some topic_list \<Rightarrow> topic_list)"
proof (cases "sns_topics_pickle (files w)")
  case None
  then show ?thesis
    using assms(1) by (simp add: restore_sns_def load_file_def io_defs)
next
  case (Some topic_list)
  let ?w1 = "w\<lparr>file_ops := file_ops w @ [ReadFile ''sns_topics.pickle'']\<rparr>"
  let ?loop = "for_each restore_sns_topic topic_list ?w1"
  have l: "fst ?loop = Inr ()" "files (snd ?loop) = files w"
    "calls (snd ?loop) =
       calls w @ map (\<lambda>t. SnsCreateTopic (last_segment CHR '':'' t)) topic_list"
    using restore_sns_topics_loop [of topic_list ?w1] by simp_all
  obtain w2 where w2: "?loop = (Inr (), w2)"
    using l(1) by (cases ?loop) auto
  with l have f2: "files w2 = files w"
    "calls w2 = calls w @ map (\<lambda>t. SnsCreateTopic (last_segment CHR '':'' t)) topic_list"
    by simp_all
  show ?thesis
    using assms Some w2 f2
    by (cases topic_list)
       (simp_all add: restore_sns_def load_file_def restore_sns_subscription_def
                      dict_has_key_def io_defs)
qed

theorem restore_sns_has_key_fault_witness:
  "sns_client_ok one_subscription_world
   \<and> (\<exists>subscription rest.
        sns_subs_pickle (files one_subscription_world) = Some (subscription # rest))
   \<and> fst (restore_sns one_subscription_world) = Inl (AttributeError ''has_key'')
   \<and> calls (snd (restore_sns one_subscription_world)) = [SnsCreateTopic ''news'']"
proof -
  have ok: "sns_client_ok one_subscription_world"
    by (simp add: one_subscription_world_def empty_world_def)
  have subs: "sns_subs_pickle (files one_subscription_world) =
     Some ([(''topicARN'', PStr ''arn:aws:sns:us-east-1:000000000000:news''),
            (''subARN'', PStr ''arn:aws:sns:us-east-1:000000000000:news:1''),
            (''protocol'', PStr ''email''),
            (''endpoint'', PStr ''me@example.com'')] # [])"
    by (simp add: one_subscription_world_def)
  have seg: "last_segment CHR '':'' ''arn:aws:sns:us-east-1:000000000000:news'' = ''news''"
    by code_simp
  show ?thesis
    using restore_sns_has_key_fault [OF ok subs] ok subs seg
    by (simp add: one_subscription_world_def empty_world_def no_files_def)
qed

subsection \<open>Subscription records: written under one set of keys, read under another\<close>

lemma list_all2_left:
  "list_all2 P xs ys \<Longrightarrow> x \<in> set xs \<Longrightarrow> \<exists>y\<in>set ys. P x y"
  by (induction rule: list_all2_induct) auto

lemma subscription_record_keys:
  assumes "subscription_record topic subscription = Inr this_sub"
  shows "map fst this_sub = [''topicARN'', ''subARN'', ''protocol'', ''endpoint'']
       \<or> map fst this_sub = [''topicARN'', ''subARN'', ''protocol'', ''endpoint'', ''DLQARN'']"
proof -
  obtain a p e where f: "dict_get subscription ''SubscriptionArn'' = Inr a"
      "dict_get subscription ''Protocol'' = Inr p" "dict_get subscription ''Endpoint'' = Inr e"
    using assms
    by (auto simp: subscription_record_def and_then_def split: sum.splits)
  have base: "map fst (plain_record topic a p e) = [''topicARN'', ''subARN'', ''protocol'', ''endpoint'']"
    by (simp add: plain_record_def)
  have upd: "\<And>v. map fst (dict_set (plain_record topic a p e) ''DLQARN'' v)
               = [''topicARN'', ''subARN'', ''protocol'', ''endpoint'', ''DLQARN'']"
    by (simp add: plain_record_def dict_set_def)
  have "this_sub = plain_record topic a p e
        \<or> (\<exists>v. this_sub = dict_set (plain_record topic a p e) ''DLQARN'' v)"
    using assms f
    by (auto simp: subscription_record_def and_then_def Let_def plain_record_def
             split: sum.splits if_splits)
  then show ?thesis using base upd by auto
qed

lemma backup_record_key_error:
  assumes "subscription_record topic subscription = Inr this_sub"
  shows "subscribe_from_record dlq this_sub w = (Inl (KeyError ''TopicARN''), w)"
proof -
  have "''TopicARN'' \<notin> set (map fst this_sub)"
    using subscription_record_keys [OF assms] by (elim disjE) simp_all
  then have "map_of this_sub ''TopicARN'' = None"
    by (simp add: map_of_eq_None_iff)
  then show ?thesis
    by (simp add: subscribe_from_record_def dict_get_def io_defs)
qed

text \<open>
  C9. When \<^verbatim>\<open>backup_sns\<close> has a client, finds a topic and returns normally, every
  record of the subscription file it wrote has the keys \<^verbatim>\<open>topicARN\<close>,
  \<^verbatim>\<open>subARN\<close>, \<^verbatim>\<open>protocol\<close>, \<^verbatim>\<open>endpoint\<close>, in this order, followed by
  \<^verbatim>\<open>DLQARN\<close> or by nothing. Whatever the membership test of line 332 would answer,
  the \<^verbatim>\<open>subscribe\<close> step of \<^verbatim>\<open>restore_sns\<close> on such a record raises
  \<^verbatim>\<open>KeyError('TopicARN')\<close> and changes nothing: no request is sent.
\<close>

theorem restore_of_backup_sns_key_error:
  assumes "sns_client_ok w" and "sns w \<noteq> []" and "backup_sns w = (Inr b, w1)"
      and "sns_subs_pickle (files w1) = Some subs" and "this_sub \<in> set subs"
  shows "(map fst this_sub = [''topicARN'', ''subARN'', ''protocol'', ''endpoint'']
          \<or> map fst this_sub =
              [''topicARN'', ''subARN'', ''protocol'', ''endpoint'', ''DLQARN''])
       \<and> subscribe_from_record dlq this_sub w2 = (Inl (KeyError ''TopicARN''), w2)"
proof -
  obtain subs' where s: "sns_subs_pickle (files w1) = Some subs'"
      "list_all2 record_of subs' (listed_subscriptions w)"
    using backup_sns_records [OF assms(1-3)] by blast
  have "subs' = subs"
    using s(1) assms(4) by simp
  then have "list_all2 record_of subs (listed_subscriptions w)"
    using s(2) by simp
  then obtain entry where "record_of this_sub entry"
    using list_all2_left [OF _ assms(5)] by blast
  then have r: "subscription_record (fst entry) (snd entry) = Inr this_sub"
    by (simp add: record_of_def)
  show ?thesis
    by (intro conjI) (rule subscription_record_keys [OF r], rule backup_record_key_error [OF r])
qed

theorem restore_of_backup_sns_key_error_witness:
  "sns_client_ok news_world \<and> sns news_world \<noteq> []
   \<and> backup_sns news_world = (Inr False, snd (backup_sns news_world))
   \<and> sns_subs_pickle (files (snd (backup_sns news_world))) =
       Some [plain_record ''arn:aws:sns:us-east-1:000000000000:news''
               (PStr ''arn:aws:sns:us-east-1:000000000000:news:1'') (PStr ''email'')
               (PStr ''me@example.com'')]
   \<and> subscribe_from_record False
        (plain_record ''arn:aws:sns:us-east-1:000000000000:news''
           (PStr ''arn:aws:sns:us-east-1:000000000000:news:1'') (PStr ''email'')
           (PStr ''me@example.com'')) empty_world
       = (Inl (KeyError ''TopicARN''), empty_world)
   \<and> subscribe_from_record True
        (plain_record ''arn:aws:sns:us-east-1:000000000000:news''
           (PStr ''arn:aws:sns:us-east-1:000000000000:news:1'') (PStr ''email'')
           (PStr ''me@example.com'')) empty_world
       = (Inl (KeyError ''TopicARN''), empty_world)"
proof -
  let ?r = "plain_record ''arn:aws:sns:us-east-1:000000000000:news''
              (PStr ''arn:aws:sns:us-east-1:000000000000:news:1'') (PStr ''email'')
              (PStr ''me@example.com'')"
  have ok: "sns_client_ok news_world"
    by (simp add: news_world_def empty_world_def)
  have ne: "sns news_world \<noteq> []"
    by (simp add: news_world_def empty_world_def)
  have "fst (backup_sns news_world) = Inr False"
    by code_simp
  then have run: "backup_sns news_world = (Inr False, snd (backup_sns news_world))"
    by (simp add: prod_eq_iff)
  have f: "sns_subs_pickle (files (snd (backup_sns news_world))) = Some [?r]"
    by code_simp
  have m: "?r \<in> set [?r]"
    by simp
  note t = restore_of_backup_sns_key_error [OF ok ne run f m]
  show ?thesis
    by (intro conjI ok ne run f t [of False empty_world, THEN conjunct2]
              t [of True empty_world, THEN conjunct2])
qed

subsection \<open>Backup of an empty environment\<close>

text \<open>
  C4. In \<open>empty_world\<close> there is no bucket, no queue and no topic. \<^verbatim>\<open>backup\<close> writes
  the bucket file and the object file as empty lists and then ends in
  \<^verbatim>\<open>KeyError('QueueUrls')\<close> inside \<^verbatim>\<open>backup_sqs\<close>: the response of
  \<^verbatim>\<open>list_queues\<close> has no such key when there is no queue. The queue file and the
  message file are not written and \<^verbatim>\<open>backup_sns\<close> is never reached. On their own,
  \<^verbatim>\<open>backup_s3\<close> and \<^verbatim>\<open>backup_sns\<close> return normally in this world, and
  \<^verbatim>\<open>backup_sns\<close> writes no file.
\<close>

theorem backup_empty_environment_faults:
  "fst (backup empty_world) = Inl (KeyError ''QueueUrls'')
   \<and> fst (backup_sqs empty_world) = Inl (KeyError ''QueueUrls'')
   \<and> files (snd (backup empty_world)) =
       no_files\<lparr>s3_buckets_pickle := Some [], s3_objects_pickle := Some []\<rparr>
   \<and> file_ops (snd (backup empty_world)) =
       [WriteFile ''s3_buckets.pickle'', WriteFile ''s3_objects.pickle'']
   \<and> calls (snd (backup empty_world)) = [S3ListBuckets, SqsListQueues]
   \<and> fst (backup_s3 empty_world) = Inr False
   \<and> fst (backup_sns empty_world) = Inr False
   \<and> files (snd (backup_sns empty_world)) = no_files"
proof (intro conjI)
  show "fst (backup empty_world) = Inl (KeyError ''QueueUrls'')"
    by code_simp
  show "fst (backup_sqs empty_world) = Inl (KeyError ''QueueUrls'')"
    by code_simp
  show "files (snd (backup empty_world)) =
          no_files\<lparr>s3_buckets_pickle := Some [], s3_objects_pickle := Some []\<rparr>"
    by code_simp
  show "file_ops (snd (backup empty_world)) =
          [WriteFile ''s3_buckets.pickle'', WriteFile ''s3_objects.pickle'']"
    by code_simp
  show "calls (snd (backup empty_world)) = [S3ListBuckets, SqsListQueues]"
    by code_simp
  show "fst (backup_s3 empty_world) = Inr False"
    by code_simp
  show "fst (backup_sns empty_world) = Inr False"
    by code_simp
  show "files (snd (backup_sns empty_world)) = no_files"
    by code_simp
qed

end
